theory Spec2Isabelle
  imports Main "HOL-Library.Sublist" "HOL-Library.AList"
begin

section \<open>Python values\<close>

text \<open>
  A Python \<open>str\<close> is a sequence of code points, so it is a list of naturals here;
  \<open>str\<close> turns an ASCII literal into one. The Chinese literals of the source are
  written by their code points.
\<close>

type_synonym ustr = "nat list"

definition str :: "string \<Rightarrow> ustr" where
  "str s = map of_char s"

text \<open>\<open>sub in s\<close> on strings: \<open>sub\<close> occurs in \<open>s\<close> as a contiguous block.\<close>

definition str_in :: "ustr \<Rightarrow> ustr \<Rightarrow> bool" where
  "str_in sub s = sublist sub s"

text \<open>
  The values that \<open>json.load\<close> and \<open>Response.json\<close> build, which are also the values
  a cookie or a header can hold: \<open>None\<close>, \<open>bool\<close>, \<open>int\<close>, \<open>float\<close>, \<open>str\<close>, \<open>list\<close>
  and \<open>dict\<close> with string keys. A dict is an association list in insertion order with
  distinct keys. A float is carried as the text of its literal: floating point
  arithmetic is outside this development.
\<close>

datatype pyval =
    PNone
  | PBool bool
  | PInt int
  | PFloat ustr
  | PStr ustr
  | PList "pyval list"
  | PDict "(ustr \<times> pyval) list"

text \<open>
  Exceptions. \<open>HepanException\<close> and the plain \<open>Exception\<close> of the constructor carry
  their message; the others are the library exceptions the source catches.
\<close>

datatype exn =
    HepanException ustr
  | Exception ustr
  | RequestException ustr
  | HTTPError nat
  | JSONDecodeError
  | KeyError ustr
  | TypeError
  | ValueError
  | IndexError
  | FileNotFoundError
  | OSError ustr

text \<open>
  What \<open>print\<close> wrote: a string, or a prefix followed by \<open>str(e)\<close> of an exception
  (the wording of library exceptions is not modelled).
\<close>

datatype out_line = Printed ustr | PrintedExn ustr exn

definition bind_exn :: "exn + 'a \<Rightarrow> ('a \<Rightarrow> exn + 'b) \<Rightarrow> exn + 'b" where
  "bind_exn r f = (case r of Inl e \<Rightarrow> Inl e | Inr x \<Rightarrow> f x)"

section \<open>The json module\<close>

subsection \<open>Encoding: \<open>json.dump\<close> with its defaults\<close>

definition hexdigit :: "nat \<Rightarrow> nat" where
  "hexdigit d = (if d < 10 then 48 + d else 87 + d)"

definition hex4 :: "nat \<Rightarrow> ustr" where
  "hex4 n = [hexdigit (n div 4096 mod 16), hexdigit (n div 256 mod 16),
             hexdigit (n div 16 mod 16), hexdigit (n mod 16)]"

text \<open>
  \<open>encode_basestring_ascii\<close>: the quote, the backslash and the five short escapes,
  printable ASCII as it is, everything else as \<open>\uXXXX\<close>, above the basic plane as a
  surrogate pair.
\<close>

definition escape_char :: "nat \<Rightarrow> ustr" where
  "escape_char c =
     (if c = 34 then [92, 34]
      else if c = 92 then [92, 92]
      else if c = 10 then [92, 110]
      else if c = 13 then [92, 114]
      else if c = 9 then [92, 116]
      else if c = 8 then [92, 98]
      else if c = 12 then [92, 102]
      else if 32 \<le> c \<and> c \<le> 126 then [c]
      else if c < 0x10000 then [92, 117] @ hex4 c
      else [92, 117] @ hex4 (0xD800 + (c - 0x10000) div 1024 mod 1024)
         @ [92, 117] @ hex4 (0xDC00 + (c - 0x10000) mod 1024))"

definition encode_basestring_ascii :: "ustr \<Rightarrow> ustr" where
  "encode_basestring_ascii s = [34] @ concat (map escape_char s) @ [34]"

fun digits :: "nat \<Rightarrow> ustr" where
  "digits n = (if n < 10 then [48 + n] else digits (n div 10) @ [48 + n mod 10])"

definition int_repr :: "int \<Rightarrow> ustr" where
  "int_repr i = (if i < 0 then 45 # digits (nat (- i)) else digits (nat i))"

text \<open>\<open>', '.join(parts)\<close>\<close>

fun join_comma :: "ustr list \<Rightarrow> ustr" where
  "join_comma [] = []"
| "join_comma [x] = x"
| "join_comma (x # y # ys) = x @ str '', '' @ join_comma (y # ys)"

fun json_dumps :: "pyval \<Rightarrow> ustr" where
  "json_dumps PNone = str ''null''"
| "json_dumps (PBool b) = (if b then str ''true'' else str ''false'')"
| "json_dumps (PInt i) = int_repr i"
| "json_dumps (PFloat lexeme) = lexeme"
| "json_dumps (PStr s) = encode_basestring_ascii s"
| "json_dumps (PList xs) = str ''['' @ join_comma (map json_dumps xs) @ str '']''"
| "json_dumps (PDict kvs) =
     str ''{'' @ join_comma (map (\<lambda>(k, v). encode_basestring_ascii k @ str '': '' @ json_dumps v) kvs)
       @ str ''}''"

subsection \<open>Decoding: \<open>json.load\<close> with its defaults\<close>

definition is_ws :: "nat \<Rightarrow> bool" where
  "is_ws c = (c = 32 \<or> c = 9 \<or> c = 10 \<or> c = 13)"

definition skip_ws :: "ustr \<Rightarrow> ustr" where
  "skip_ws s = dropWhile is_ws s"

definition hexval :: "nat \<Rightarrow> nat option" where
  "hexval c =
     (if 48 \<le> c \<and> c \<le> 57 then Some (c - 48)
      else if 97 \<le> c \<and> c \<le> 102 then Some (c - 87)
      else if 65 \<le> c \<and> c \<le> 70 then Some (c - 55)
      else None)"

text \<open>The four hex digits after \<open>\u\<close>; \<open>None\<close> is "Invalid \uXXXX escape".\<close>

definition decode_uXXXX :: "ustr \<Rightarrow> nat option" where
  "decode_uXXXX s =
     (case map hexval (take 4 s) of
        [Some a, Some b, Some c, Some d] \<Rightarrow> Some (((a * 16 + b) * 16 + c) * 16 + d)
      | _ \<Rightarrow> None)"

definition backslash_char :: "nat \<Rightarrow> nat option" where
  "backslash_char e =
     (if e = 34 then Some 34
      else if e = 92 then Some 92
      else if e = 47 then Some 47
      else if e = 98 then Some 8
      else if e = 102 then Some 12
      else if e = 110 then Some 10
      else if e = 114 then Some 13
      else if e = 116 then Some 9
      else None)"

text \<open>
  \<open>scanstring\<close> (strict), from just after the opening quote: the decoded string and the
  text after the closing quote. A high surrogate escape directly followed by a low
  surrogate escape is one code point.
\<close>

fun scanstring :: "ustr \<Rightarrow> (ustr \<times> ustr) option" where
  "scanstring [] = None"
| "scanstring (c # cs) =
     (if c = 34 then Some ([], cs)
      else if c = 92 then
        (case cs of
           [] \<Rightarrow> None
         | e # es \<Rightarrow>
             if e = 117 then
               (case decode_uXXXX es of
                  None \<Rightarrow> None
                | Some uni \<Rightarrow>
                    if 0xD800 \<le> uni \<and> uni \<le> 0xDBFF \<and> take 2 (drop 4 es) = [92, 117] then
                      (case decode_uXXXX (drop 6 es) of
                         None \<Rightarrow> None
                       | Some uni2 \<Rightarrow>
                           if 0xDC00 \<le> uni2 \<and> uni2 \<le> 0xDFFF then
                             map_option (apfst ((#) (0x10000 + (uni - 0xD800) * 1024 + (uni2 - 0xDC00))))
                               (scanstring (drop 10 es))
                           else map_option (apfst ((#) uni)) (scanstring (drop 4 es)))
                    else map_option (apfst ((#) uni)) (scanstring (drop 4 es)))
             else
               (case backslash_char e of
                  None \<Rightarrow> None
                | Some ch \<Rightarrow> map_option (apfst ((#) ch)) (scanstring es)))
      else if c < 32 then None
      else map_option (apfst ((#) c)) (scanstring cs))"

definition is_digit :: "nat \<Rightarrow> bool" where
  "is_digit c = (48 \<le> c \<and> c \<le> 57)"

fun digits_value :: "nat \<Rightarrow> ustr \<Rightarrow> nat" where
  "digits_value acc [] = acc"
| "digits_value acc (c # cs) = digits_value (acc * 10 + (c - 48)) cs"

text \<open>
  The scanner's number: an optional minus, \<open>0\<close> or a digit string not starting with
  \<open>0\<close>, an optional fraction, an optional exponent (kept only when it has a digit).
  With neither fraction nor exponent it is an \<open>int\<close>, otherwise a \<open>float\<close>.
  CPython refuses to convert more than \<open>int_max_str_digits\<close> decimal digits to an
  \<open>int\<close> (a \<open>ValueError\<close>).
\<close>

definition int_max_str_digits :: nat where
  "int_max_str_digits = 4300"

definition match_number :: "ustr \<Rightarrow> (pyval \<times> ustr) option" where
  "match_number s =
     (let (sign, s1) = (case s of c # cs \<Rightarrow> if c = 45 then ([45], cs) else ([], s) | [] \<Rightarrow> ([], s));
          ip = (case s1 of c # cs \<Rightarrow> if c = 48 then [48] else takeWhile is_digit s1 | [] \<Rightarrow> []);
          s2 = drop (length ip) s1;
          frac = (case s2 of
                    c # cs \<Rightarrow> if c = 46 \<and> takeWhile is_digit cs \<noteq> [] then c # takeWhile is_digit cs else []
                  | [] \<Rightarrow> []);
          s3 = drop (length frac) s2;
          ex = (case s3 of
                  c # cs \<Rightarrow>
                    if c = 101 \<or> c = 69 then
                      (let sg = (case cs of d # ds \<Rightarrow> if d = 43 \<or> d = 45 then [d] else [] | [] \<Rightarrow> []);
                           ds = takeWhile is_digit (drop (length sg) cs)
                       in if ds = [] then [] else c # sg @ ds)
                    else []
                | [] \<Rightarrow> []);
          s4 = drop (length ex) s3
      in if ip = [] then None
         else if frac = [] \<and> ex = [] then
           if length ip > int_max_str_digits then None
           else Some (PInt ((if sign = [] then 1 else - 1) * int (digits_value 0 ip)), s4)
         else Some (PFloat (sign @ ip @ frac @ ex), s4))"

text \<open>\<open>dict(pairs)\<close>: a later pair of a key replaces the value and keeps the place.\<close>

definition dict_of_pairs :: "(ustr \<times> pyval) list \<Rightarrow> (ustr \<times> pyval) list" where
  "dict_of_pairs pairs = foldl (\<lambda>d (k, v). AList.update k v d) [] pairs"

text \<open>
  \<open>scan_once\<close> with the object and array parsers. Python recurses on the text; the
  first argument bounds the number of nested calls, and \<open>json_loads\<close> starts it at more
  than two calls for each character, which is all a text can use (\<open>json_loads_fuel\<close>
  below).
\<close>

fun scan_once :: "nat \<Rightarrow> ustr \<Rightarrow> (pyval \<times> ustr) option"
  and array_items :: "nat \<Rightarrow> ustr \<Rightarrow> (pyval list \<times> ustr) option"
  and object_items :: "nat \<Rightarrow> ustr \<Rightarrow> ((ustr \<times> pyval) list \<times> ustr) option"
where
  "scan_once 0 s = None"
| "scan_once (Suc n) s =
     (case s of
        [] \<Rightarrow> None
      | c # cs \<Rightarrow>
          if c = 34 then map_option (apfst PStr) (scanstring cs)
          else if c = 123 then
            (if take 1 (skip_ws cs) = str ''}'' then Some (PDict [], drop 1 (skip_ws cs))
             else map_option (apfst (PDict \<circ> dict_of_pairs)) (object_items n (skip_ws cs)))
          else if c = 91 then
            (if take 1 (skip_ws cs) = str '']'' then Some (PList [], drop 1 (skip_ws cs))
             else map_option (apfst PList) (array_items n (skip_ws cs)))
          else if take 4 s = str ''null'' then Some (PNone, drop 4 s)
          else if take 4 s = str ''true'' then Some (PBool True, drop 4 s)
          else if take 5 s = str ''false'' then Some (PBool False, drop 5 s)
          else
            (case match_number s of
               Some r \<Rightarrow> Some r
             | None \<Rightarrow>
                 if take 3 s = str ''NaN'' then Some (PFloat (str ''NaN''), drop 3 s)
                 else if take 8 s = str ''Infinity'' then Some (PFloat (str ''Infinity''), drop 8 s)
                 else if take 9 s = str ''-Infinity'' then Some (PFloat (str ''-Infinity''), drop 9 s)
                 else None))"
| "array_items 0 s = None"
| "array_items (Suc n) s =
     (case scan_once n s of
        None \<Rightarrow> None
      | Some (v, r) \<Rightarrow>
          (case skip_ws r of
             [] \<Rightarrow> None
           | c # cs \<Rightarrow>
               if c = 93 then Some ([v], cs)
               else if c = 44 then map_option (apfst ((#) v)) (array_items n (skip_ws cs))
               else None))"
| "object_items 0 s = None"
| "object_items (Suc n) s =
     (case s of
        [] \<Rightarrow> None
      | q # qs \<Rightarrow>
          if q \<noteq> 34 then None
          else
            (case scanstring qs of
               None \<Rightarrow> None
             | Some (k, r) \<Rightarrow>
                 (case skip_ws r of
                    [] \<Rightarrow> None
                  | c # cs \<Rightarrow>
                      if c \<noteq> 58 then None
                      else
                        (case scan_once n (skip_ws cs) of
                           None \<Rightarrow> None
                         | Some (v, r') \<Rightarrow>
                             (case skip_ws r' of
                                [] \<Rightarrow> None
                              | d # ds \<Rightarrow>
                                  if d = 125 then Some ([(k, v)], ds)
                                  else if d = 44 then
                                    map_option (apfst ((#) (k, v))) (object_items n (skip_ws ds))
                                  else None)))))"

text \<open>
  \<open>json.loads\<close> of a \<open>str\<close>: no byte order mark, one value between optional white
  space, nothing after it. \<open>None\<close> stands for the \<open>JSONDecodeError\<close>.
\<close>

definition json_loads :: "ustr \<Rightarrow> pyval option" where
  "json_loads s =
     (if take 1 s = [0xFEFF] then None
      else
        (case scan_once (2 * length s + 2) (skip_ws s) of
           None \<Rightarrow> None
         | Some (v, r) \<Rightarrow> if skip_ws r = [] then Some v else None))"

section \<open>Cookies\<close>

text \<open>
  A cookie jar as \<open>http.cookiejar\<close> keeps it: a dict from domain to a dict from path to
  a dict from name to the cookie, each in insertion order. Of a cookie only its value
  is kept. Iterating the jar walks the three levels in order.
\<close>

type_synonym jar = "(ustr \<times> (ustr \<times> (ustr \<times> pyval) list) list) list"

definition jar_items :: "jar \<Rightarrow> (ustr \<times> pyval) list" where
  "jar_items j = concat (map (\<lambda>(d, paths). concat (map (\<lambda>(p, names). names) paths)) j)"

text \<open>\<open>requests.utils.dict_from_cookiejar\<close>: \<open>{cookie.name: cookie.value for cookie in cj}\<close>\<close>

definition dict_from_cookiejar :: "jar \<Rightarrow> (ustr \<times> pyval) list" where
  "dict_from_cookiejar j = dict_of_pairs (jar_items j)"

text \<open>\<open>value.replace('\\"', '')\<close>: every backslash followed by a quote is removed, left to right.\<close>

fun remove_escaped_quotes :: "ustr \<Rightarrow> ustr" where
  "remove_escaped_quotes (a # b # cs) =
     (if a = 92 \<and> b = 34 then remove_escaped_quotes cs else a # remove_escaped_quotes (b # cs))"
| "remove_escaped_quotes cs = cs"

text \<open>
  \<open>RequestsCookieJar.set_cookie\<close>: a string value that starts and ends with a quote
  loses its escaped quotes; then \<open>CookieJar.set_cookie\<close> stores the cookie under its
  domain, path and name.
\<close>

definition unquote_value :: "pyval \<Rightarrow> pyval" where
  "unquote_value v =
     (case v of
        PStr s \<Rightarrow> if s \<noteq> [] \<and> hd s = 34 \<and> last s = 34 then PStr (remove_escaped_quotes s) else PStr s
      | _ \<Rightarrow> v)"

definition get_or_empty :: "('k \<times> 'v list) list \<Rightarrow> 'k \<Rightarrow> 'v list" where
  "get_or_empty d k = (case map_of d k of None \<Rightarrow> [] | Some x \<Rightarrow> x)"

definition set_cookie :: "ustr \<Rightarrow> ustr \<Rightarrow> ustr \<Rightarrow> pyval \<Rightarrow> jar \<Rightarrow> jar" where
  "set_cookie dmn pth nm v j =
     (let c2 = get_or_empty j dmn;
          c3 = get_or_empty c2 pth
      in AList.update dmn (AList.update pth (AList.update nm (unquote_value v) c3) c2) j)"

text \<open>
  \<open>requests.utils.cookiejar_from_dict\<close> into a fresh jar: \<open>create_cookie\<close> gives every
  cookie the domain \<open>''\<close> and the path \<open>'/'\<close>. \<open>None\<close> gives the empty jar, and so do
  an empty list and an empty string, which the loop never enters. Any other value
  that is not a dict makes the loop or the subscript raise. (Cookie names are strings
  here: a non-empty list of integers that index the list itself, which Python would
  turn into cookies named by integers, is counted with the other lists.)
\<close>

definition cookiejar_from_dict :: "pyval \<Rightarrow> exn + jar" where
  "cookiejar_from_dict v =
     (case v of
        PNone \<Rightarrow> Inr []
      | PDict kvs \<Rightarrow> Inr (foldl (\<lambda>j (k, x). set_cookie [] (str ''/'') k x j) [] kvs)
      | PList xs \<Rightarrow> if xs = [] then Inr [] else Inl TypeError
      | PStr s \<Rightarrow> if s = [] then Inr [] else Inl TypeError
      | _ \<Rightarrow> Inl TypeError)"

section \<open>The world of a \<open>WebAPI\<close> object\<close>

text \<open>
  An HTTP response as the source reads it: the status, \<open>r.text\<close>, what \<open>r.json()\<close>
  returns (\<open>None\<close> when it raises), and the tree \<open>BeautifulSoup(r.text, 'html.parser')\<close>
  builds (the children of the document).
\<close>

datatype node = Tag ustr "(ustr \<times> ustr) list" "node list" | NavigableString ustr

record response =
  status_code :: nat
  rtext :: ustr
  rjson :: "pyval option"
  soup :: "node list"

text \<open>
  What one call of \<open>session.get\<close> or \<open>session.post\<close> does, decided by the network: it
  raises (time-out, DNS failure, reset connection, ...) or returns a response, and it
  leaves the session's jar with the cookies the server set.
\<close>

datatype http_reply = Failed ustr | Replied response

record http_outcome =
  reply :: http_reply
  jar_after :: jar

datatype request = Get ustr | Post ustr "(ustr \<times> pyval) list"

text \<open>
  What writing \<open>cookies.json\<close> does, decided by the file system: the text is written,
  or \<open>open\<close> or \<open>write\<close> raises and the file is left as given (missing, old, or cut short).
\<close>

datatype fs_write = Written | WriteFailed exn "ustr option"

text \<open>
  The state the methods read and change: the object's fields, the session (cookies and
  default headers, the headers keyed by lower-cased name as in \<open>CaseInsensitiveDict\<close>),
  the file \<open>cookies.json\<close> (\<open>None\<close> when missing), what was printed, and the requests
  sent so far.
\<close>

record world =
  username :: "ustr option"
  password :: "ustr option"
  cookies :: jar
  headers :: "ustr \<rightharpoonup> ustr \<times> pyval"
  cookie_file :: "ustr option"
  stdout :: "out_line list"
  requests :: "request list"

definition print_line :: "out_line \<Rightarrow> world \<Rightarrow> world" where
  "print_line l w = w\<lparr>stdout := stdout w @ [l]\<rparr>"

text \<open>A request is logged and the jar updated whether or not a response arrives.\<close>

definition send :: "request \<Rightarrow> http_outcome \<Rightarrow> world \<Rightarrow> world" where
  "send rq out w = w\<lparr>requests := requests w @ [rq], cookies := jar_after out\<rparr>"

definition received :: "http_outcome \<Rightarrow> exn + response" where
  "received out = (case reply out of Failed m \<Rightarrow> Inl (RequestException m) | Replied r \<Rightarrow> Inr r)"

definition raise_for_status :: "response \<Rightarrow> exn + response" where
  "raise_for_status r =
     (if 400 \<le> status_code r \<and> status_code r < 600 then Inl (HTTPError (status_code r)) else Inr r)"

section \<open>The methods of \<open>WebAPI\<close>\<close>

definition welcome_marker :: ustr where
  "welcome_marker = [0x6B22, 0x8FCE, 0x60A8, 0x56DE, 0x6765]"

definition logout_marker :: ustr where
  "logout_marker = [0x9000, 0x51FA]"

definition panel_marker :: ustr where
  "panel_marker = [0x7528, 0x6237, 0x9762, 0x677F]"

definition login_url :: ustr where
  "login_url = str ''https://bbs.uestc.edu.cn/member.php?mod=logging&action=login&loginsubmit=yes&inajax=1''"

definition token_url :: ustr where
  "token_url = str ''https://bbs.uestc.edu.cn/star/api/v1/auth/adoptLegacyAuth''"

definition root_url :: ustr where
  "root_url = str ''https://bbs.uestc.edu.cn''"

subsection \<open>\<open>save_cookies\<close> and \<open>load_cookies\<close>\<close>

definition save_failed :: ustr where
  "save_failed = [0x4FDD, 0x5B58] @ str ''cookies'' @ [0x5931, 0x8D25] @ str '': ''"

definition load_failed :: ustr where
  "load_failed = [0x52A0, 0x8F7D] @ str ''cookies'' @ [0x5931, 0x8D25] @ str '': ''"

definition save_cookies :: "fs_write \<Rightarrow> world \<Rightarrow> world" where
  "save_cookies wr w =
     (case wr of
        Written \<Rightarrow> w\<lparr>cookie_file := Some (json_dumps (PDict (dict_from_cookiejar (cookies w))))\<rparr>
      | WriteFailed e left \<Rightarrow> print_line (PrintedExn save_failed e) (w\<lparr>cookie_file := left\<rparr>))"

text \<open>
  The body of the \<open>try\<close> in \<open>load_cookies\<close>: the new jar, or the exception. The handler
  asks for the file's size again, which itself raises when the file is missing.
\<close>

definition read_cookies :: "ustr \<Rightarrow> exn + jar" where
  "read_cookies txt =
     (case json_loads txt of
        None \<Rightarrow> Inl JSONDecodeError
      | Some v \<Rightarrow> cookiejar_from_dict v)"

definition load_cookies :: "world \<Rightarrow> (exn + unit) \<times> world" where
  "load_cookies w =
     (case cookie_file w of
        None \<Rightarrow> (Inl FileNotFoundError, w)
      | Some txt \<Rightarrow>
          (case read_cookies txt of
             Inr j \<Rightarrow> (Inr (), w\<lparr>cookies := j\<rparr>)
           | Inl e \<Rightarrow>
               if length txt > 0 then (Inr (), print_line (PrintedExn load_failed e) w)
               else (Inr (), w)))"

subsection \<open>\<open>update_authorization\<close>\<close>

text \<open>\<open>obj[key]\<close> with a string key.\<close>

definition subscript :: "pyval \<Rightarrow> ustr \<Rightarrow> exn + pyval" where
  "subscript v k =
     (case v of
        PDict kvs \<Rightarrow> (case map_of kvs k of None \<Rightarrow> Inl (KeyError k) | Some x \<Rightarrow> Inr x)
      | _ \<Rightarrow> Inl TypeError)"

definition response_json :: "response \<Rightarrow> exn + pyval" where
  "response_json r = (case rjson r of None \<Rightarrow> Inl JSONDecodeError | Some v \<Rightarrow> Inr v)"

definition fetch_authorization :: "http_outcome \<Rightarrow> exn + pyval" where
  "fetch_authorization out =
     bind_exn (received out) (\<lambda>r.
     bind_exn (raise_for_status r) (\<lambda>r.
     bind_exn (response_json r) (\<lambda>j.
     bind_exn (subscript j (str ''data'')) (\<lambda>d.
       subscript d (str ''authorization'')))))"

definition update_authorization :: "http_outcome \<Rightarrow> world \<Rightarrow> bool \<times> world" where
  "update_authorization out w =
     (let w1 = send (Post token_url []) out w
      in case fetch_authorization out of
           Inr a \<Rightarrow>
             (True, w1\<lparr>headers := (headers w1)(str ''authorization'' \<mapsto> (str ''Authorization'', a))\<rparr>)
         | Inl e \<Rightarrow> (False, print_line (PrintedExn [] e) w1))"

subsection \<open>\<open>login\<close>\<close>

text \<open>\<open>f'{x}'\<close> of a field that is a string or \<open>None\<close>.\<close>

definition format_field :: "ustr option \<Rightarrow> ustr" where
  "format_field x = (case x of None \<Rightarrow> str ''None'' | Some s \<Rightarrow> s)"

definition login_failed_message :: "ustr option \<Rightarrow> ustr option \<Rightarrow> ustr \<Rightarrow> ustr" where
  "login_failed_message u p body =
     [0x767B, 0x5F55, 0x5931, 0x8D25] @ str '' username='' @ format_field u
       @ str '', password='' @ format_field p @ [10] @ body"

definition form_field :: "ustr option \<Rightarrow> pyval" where
  "form_field x = (case x of None \<Rightarrow> PNone | Some s \<Rightarrow> PStr s)"

definition login_form :: "world \<Rightarrow> (ustr \<times> pyval) list" where
  "login_form w =
     [(str ''loginfield'', PStr (str ''username'')),
      (str ''username'', form_field (username w)),
      (str ''password'', form_field (password w))]"

text \<open>The body of the \<open>try\<close> in \<open>login\<close>, then the handler.\<close>

definition login_try :: "http_outcome \<Rightarrow> fs_write \<Rightarrow> http_outcome \<Rightarrow> world \<Rightarrow> (exn + bool) \<times> world" where
  "login_try post wr tok w =
     (let w1 = send (Post login_url (login_form w)) post w
      in case bind_exn (received post) raise_for_status of
           Inl e \<Rightarrow> (Inl e, w1)
         | Inr r \<Rightarrow>
             if str_in welcome_marker (rtext r) then
               (let (b, w2) = update_authorization tok (save_cookies wr w1) in (Inr (True \<and> b), w2))
             else (Inl (HepanException (login_failed_message (username w1) (password w1) (rtext r))), w1))"

definition login :: "http_outcome \<Rightarrow> fs_write \<Rightarrow> http_outcome \<Rightarrow> world \<Rightarrow> (exn + bool) \<times> world" where
  "login post wr tok w =
     (case login_try post wr tok w of
        (Inl (HepanException m), w') \<Rightarrow> (Inl (HepanException m), w')
      | (Inl e, w') \<Rightarrow> (Inr False, print_line (PrintedExn [] e) w')
      | (Inr b, w') \<Rightarrow> (Inr b, w'))"

subsection \<open>\<open>check_login_status\<close>\<close>

definition logged_in_page :: "ustr \<Rightarrow> bool" where
  "logged_in_page body =
     (str_in welcome_marker body \<or> str_in logout_marker body \<or> str_in panel_marker body)"

definition check_login_status :: "http_outcome \<Rightarrow> world \<Rightarrow> bool \<times> world" where
  "check_login_status out w =
     (let w1 = send (Get root_url) out w
      in case bind_exn (received out) raise_for_status of
           Inl e \<Rightarrow> (False, w1)
         | Inr r \<Rightarrow> (logged_in_page (rtext r), w1))"

subsection \<open>The constructor\<close>

definition entered_home :: ustr where
  "entered_home = [0x5DF2, 0x8FDB, 0x5165, 0x4E3B, 0x9875]"

definition session_invalid :: ustr where
  "session_invalid = str ''Cookie'' @ [0x5DF2, 0x5931, 0x6548, 0x6216, 0x4E0D, 0x5B58, 0x5728]"

text \<open>The truth value of a field that is a string or \<open>None\<close>.\<close>

definition truthy :: "ustr option \<Rightarrow> bool" where
  "truthy x = (case x of None \<Rightarrow> False | Some s \<Rightarrow> s \<noteq> [])"

text \<open>
  Lines 44 to 50: the fields, a fresh session with an empty jar, and the saved cookies
  when \<open>cookies.json\<close> exists and is not empty.
\<close>

definition init_load :: "ustr option \<Rightarrow> ustr option \<Rightarrow> world \<Rightarrow> (exn + unit) \<times> world" where
  "init_load u p w =
     (let w1 = w\<lparr>username := u, password := p, cookies := []\<rparr>
      in case cookie_file w1 of
           None \<Rightarrow> (Inr (), w1)
         | Some txt \<Rightarrow> if length txt > 0 then load_cookies w1 else (Inr (), w1))"

text \<open>
  \<open>__init__\<close>, given what each request and the write would do. The world on entry
  holds the default headers of a fresh session.
\<close>

definition init :: "ustr option \<Rightarrow> ustr option \<Rightarrow> bool \<Rightarrow> http_outcome \<Rightarrow> fs_write \<Rightarrow> http_outcome
    \<Rightarrow> http_outcome \<Rightarrow> world \<Rightarrow> (exn + unit) \<times> world" where
  "init u p autoLogin post wr tok home w =
     (case init_load u p w of
        (Inl e, w1) \<Rightarrow> (Inl e, w1)
      | (Inr _, w1) \<Rightarrow>
          if autoLogin \<and> truthy u \<and> truthy p then
            (case login post wr tok w1 of
               (Inl e, w2) \<Rightarrow> (Inl e, w2)
             | (Inr _, w2) \<Rightarrow> (Inr (), w2))
          else if autoLogin then
            (case check_login_status home w1 of
               (True, w2) \<Rightarrow> (Inr (), print_line (Printed entered_home) w2)
             | (False, w2) \<Rightarrow> (Inl (Exception session_invalid), w2))
          else (Inr (), w1))"

section \<open>Strings and integers of the page scraper\<close>

text \<open>
  \<open>s.split(sep)\<close> for a non-empty separator: the pieces between the occurrences of
  \<open>sep\<close>, found left to right without overlap. The second argument is the piece being
  read.
\<close>

function split_from :: "ustr \<Rightarrow> ustr \<Rightarrow> ustr \<Rightarrow> ustr list" where
  "split_from sep cur [] = [cur]"
| "split_from sep cur (c # cs) =
     (if sep \<noteq> [] \<and> prefix sep (c # cs) then cur # split_from sep [] (drop (length sep) (c # cs))
      else split_from sep (cur @ [c]) cs)"
  by pat_completeness auto
termination
  by (relation "measure (\<lambda>(sep, cur, s). length s)") auto

definition py_split :: "ustr \<Rightarrow> ustr \<Rightarrow> exn + ustr list" where
  "py_split sep s = (if sep = [] then Inl ValueError else Inr (split_from sep [] s))"

text \<open>\<open>xs[i]\<close> for an index that is not negative.\<close>

definition index :: "'a list \<Rightarrow> nat \<Rightarrow> exn + 'a" where
  "index xs i = (if i < length xs then Inr (xs ! i) else Inl IndexError)"

text \<open>
  \<open>int(s)\<close> of a string, as CPython reads it: white space around, an optional sign,
  decimal digits of any script with single underscores between them, and no more than
  \<open>int_max_str_digits\<close> digits. The zero digits are those of Unicode 14 (Python 3.11);
  each is followed by its digits one to nine.
\<close>

definition zero_digits :: "nat list" where
  "zero_digits =
     [48, 1632, 1776, 1984, 2406, 2534, 2662, 2790, 2918, 3046, 3174, 3302, 3430, 3558,
      3664, 3792, 3872, 4160, 4240, 6112, 6160, 6470, 6608, 6784, 6800, 6992, 7088, 7232,
      7248, 42528, 43216, 43264, 43472, 43504, 43600, 44016, 65296, 66720, 68912, 69734,
      69872, 69942, 70096, 70384, 70736, 70864, 71248, 71360, 71472, 71904, 72016, 72784,
      73040, 73120, 92768, 92864, 93008, 120782, 120792, 120802, 120812, 120822, 123200,
      123632, 125264, 130032]"

definition decimal_value :: "nat \<Rightarrow> nat option" where
  "decimal_value c = map_option (\<lambda>z. c - z) (find (\<lambda>z. z \<le> c \<and> c < z + 10) zero_digits)"

definition is_space :: "nat \<Rightarrow> bool" where
  "is_space c =
     ((9 \<le> c \<and> c \<le> 13) \<or> c = 32 \<or> c = 0x85 \<or> c = 0xA0 \<or> c = 0x1680 \<or> (0x2000 \<le> c \<and> c \<le> 0x200A)
      \<or> c = 0x2028 \<or> c = 0x2029 \<or> c = 0x202F \<or> c = 0x205F \<or> c = 0x3000)"

definition is_int_char :: "nat \<Rightarrow> bool" where
  "is_int_char c = (decimal_value c \<noteq> None \<or> c = 95)"

fun no_double_underscore :: "ustr \<Rightarrow> bool" where
  "no_double_underscore (a # b # cs) = (\<not> (a = 95 \<and> b = 95) \<and> no_double_underscore (b # cs))"
| "no_double_underscore cs = True"

definition decimal_digits :: "ustr \<Rightarrow> nat list" where
  "decimal_digits s = map (\<lambda>c. the (decimal_value c)) (filter (\<lambda>c. c \<noteq> 95) s)"

definition py_int :: "ustr \<Rightarrow> exn + int" where
  "py_int s =
     (let t = dropWhile is_space s;
          (neg, t1) = (case t of
                         c # cs \<Rightarrow> if c = 43 then (False, cs) else if c = 45 then (True, cs) else (False, t)
                       | [] \<Rightarrow> (False, t));
          body = takeWhile is_int_char t1;
          rest = dropWhile is_int_char t1
      in if body = [] \<or> hd body = 95 \<or> last body = 95 \<or> \<not> no_double_underscore body
            \<or> dropWhile is_space rest \<noteq> [] \<or> length (decimal_digits body) > int_max_str_digits
         then Inl ValueError
         else Inr ((if neg then - 1 else 1) * int (foldl (\<lambda>a d. a * 10 + d) 0 (decimal_digits body))))"

section \<open>\<open>get_top_posts\<close>\<close>

text \<open>The tags and strings below a node, in document order.\<close>

fun descendants :: "node \<Rightarrow> node list" where
  "descendants (Tag nm attrs children) = concat (map (\<lambda>c. c # descendants c) children)"
| "descendants (NavigableString s) = []"

definition soup_descendants :: "node list \<Rightarrow> node list" where
  "soup_descendants nodes = concat (map (\<lambda>c. c # descendants c) nodes)"

definition has_id :: "ustr \<Rightarrow> node \<Rightarrow> bool" where
  "has_id target n = (case n of Tag nm attrs children \<Rightarrow> map_of attrs (str ''id'') = Some target | _ \<Rightarrow> False)"

definition is_li :: "node \<Rightarrow> bool" where
  "is_li n = (case n of Tag nm attrs children \<Rightarrow> nm = str ''li'' | _ \<Rightarrow> False)"

definition is_titled_anchor :: "node \<Rightarrow> bool" where
  "is_titled_anchor n =
     (case n of Tag nm attrs children \<Rightarrow> nm = str ''a'' \<and> map_of attrs (str ''title'') \<noteq> None | _ \<Rightarrow> False)"

text \<open>\<open>soup.find(id=target)\<close>, \<open>element.find_all('li')\<close> and \<open>li.find('a', title=True)\<close>\<close>

definition find_id :: "node list \<Rightarrow> ustr \<Rightarrow> node option" where
  "find_id nodes target = find (has_id target) (soup_descendants nodes)"

definition find_all_li :: "node \<Rightarrow> node list" where
  "find_all_li element = filter is_li (descendants element)"

definition find_a_title :: "node \<Rightarrow> node option" where
  "find_a_title li = find is_titled_anchor (descendants li)"

record activity =
  tid :: int
  title :: ustr

text \<open>Lines 285 to 287: the thread id of a link.\<close>

definition tid_of_href :: "ustr \<Rightarrow> exn + int" where
  "tid_of_href href =
     (if str_in (str ''tid='') href then
        bind_exn (py_split (str ''tid='') href) (\<lambda>parts.
        bind_exn (index parts 1) (\<lambda>after.
        bind_exn (py_split (str ''&'') after) (\<lambda>fields.
        bind_exn (index fields 0) py_int)))
      else Inr 0)"

text \<open>Lines 280 to 291: what one list item adds to \<open>temp\<close>.\<close>

definition li_entries :: "node \<Rightarrow> exn + activity list" where
  "li_entries li =
     (case find_a_title li of
        Some (Tag nm attrs children) \<Rightarrow>
          (case map_of attrs (str ''title'') of
             None \<Rightarrow> Inl (KeyError (str ''title''))
           | Some t \<Rightarrow>
               bind_exn (tid_of_href (case map_of attrs (str ''href'') of None \<Rightarrow> [] | Some h \<Rightarrow> h))
                 (\<lambda>i. Inr [\<lparr>tid = i, title = t\<rparr>]))
      | _ \<Rightarrow> Inr [])"

fun collect :: "node list \<Rightarrow> exn + activity list" where
  "collect [] = Inr []"
| "collect (li # lis) =
     bind_exn (li_entries li) (\<lambda>es. bind_exn (collect lis) (\<lambda>more. Inr (es @ more)))"

text \<open>Lines 275 to 294: one pass of the loop over \<open>modes\<close>.\<close>

definition extract_block :: "node list \<Rightarrow> ustr \<Rightarrow> exn + activity list" where
  "extract_block nodes target =
     (case find_id nodes target of
        Some element \<Rightarrow> collect (find_all_li element)
      | None \<Rightarrow> Inr [])"

record top_posts =
  new_reply :: "activity list"
  new_post :: "activity list"

definition reply_block :: ustr where
  "reply_block = str ''portal_block_66_content''"

definition post_block :: ustr where
  "post_block = str ''portal_block_67_content''"

text \<open>Lines 266 to 296: from the parsed page to the result.\<close>

definition extract_top_posts :: "node list \<Rightarrow> exn + top_posts" where
  "extract_top_posts nodes =
     bind_exn (extract_block nodes reply_block) (\<lambda>a.
     bind_exn (extract_block nodes post_block) (\<lambda>b.
       Inr \<lparr>new_reply = a, new_post = b\<rparr>))"

definition top_posts_failed :: ustr where
  "top_posts_failed =
     [0x83B7, 0x53D6, 0x6700, 0x65B0, 0x5E16, 0x5B50, 0x4FE1, 0x606F, 0x5931, 0x8D25] @ str '': ''"

definition get_top_posts :: "http_outcome \<Rightarrow> world \<Rightarrow> top_posts option \<times> world" where
  "get_top_posts out w =
     (let w1 = send (Get root_url) out w
      in case bind_exn (bind_exn (received out) raise_for_status) (\<lambda>r. extract_top_posts (soup r)) of
           Inr res \<Rightarrow> (Some res, w1)
         | Inl e \<Rightarrow> (None, print_line (PrintedExn top_posts_failed e) w1))"

section \<open>Well-formed thread links\<close>




section \<open>Cookies that survive the record\<close>

text \<open>
  The words used to state the round trip through \<open>cookies.json\<close>. A scalar is a code
  point that is not a surrogate, which is what a string decoded from the network
  holds. A plain value is \<open>None\<close> or a string of scalars (the values a server can
  set); it is stable when the jar stores it as it is. \<open>encode_item\<close> is the text of
  one member of an object, as \<open>json_dumps\<close> writes it.
\<close>

definition scalar :: "nat \<Rightarrow> bool" where
  "scalar c = (c < 0xD800 \<or> (0xE000 \<le> c \<and> c < 0x110000))"

definition plain_value :: "pyval \<Rightarrow> bool" where
  "plain_value v = (case v of PNone \<Rightarrow> True | PStr s \<Rightarrow> list_all scalar s | _ \<Rightarrow> False)"

definition stable_value :: "pyval \<Rightarrow> bool" where
  "stable_value v = (plain_value v \<and> unquote_value v = v)"

definition encode_item :: "ustr \<times> pyval \<Rightarrow> ustr" where
  "encode_item kv = encode_basestring_ascii (fst kv) @ str '': '' @ json_dumps (snd kv)"

section \<open>Example inputs\<close>

text \<open>
  A world with a fresh session and no saved cookies, the same with credentials, and
  some outcomes of a request: a page with a status and a body, a reply of the token
  endpoint carrying a token, and a time-out.
\<close>

definition fresh_world :: world where
  "fresh_world = \<lparr>username = None, password = None, cookies = [], headers = Map.empty,
     cookie_file = None, stdout = [], requests = []\<rparr>"

definition alice :: world where
  "alice = fresh_world\<lparr>username := Some (str ''alice''), password := Some (str ''hunter2'')\<rparr>"

definition page :: "nat \<Rightarrow> ustr \<Rightarrow> http_outcome" where
  "page st body = \<lparr>reply = Replied \<lparr>status_code = st, rtext = body, rjson = None, soup = []\<rparr>, jar_after = []\<rparr>"

definition token_page :: "nat \<Rightarrow> ustr \<Rightarrow> http_outcome" where
  "token_page st tk =
     \<lparr>reply = Replied \<lparr>status_code = st, rtext = [],
        rjson = Some (PDict [(str ''data'', PDict [(str ''authorization'', PStr tk)])]), soup = []\<rparr>,
      jar_after = []\<rparr>"

definition timed_out :: http_outcome where
  "timed_out = \<lparr>reply = Failed (str ''timed out''), jar_after = []\<rparr>"










definition link_page :: "ustr \<Rightarrow> node list" where
  "link_page href =
     [Tag (str ''div'') [(str ''id'', post_block)]
        [Tag (str ''li'') [] [Tag (str ''a'') [(str ''title'', str ''T''), (str ''href'', href)] []]]]"

definition fetched :: "node list \<Rightarrow> http_outcome" where
  "fetched nodes = \<lparr>reply = Replied \<lparr>status_code = 200, rtext = [], rjson = None, soup = nodes\<rparr>, jar_after = []\<rparr>"

text \<open>
  Sessions: one with two cookies of the same name under two paths, and one with two
  cookies of different names.
\<close>

definition two_paths :: world where
  "two_paths = fresh_world\<lparr>cookies :=
     [(str ''bbs.uestc.edu.cn'',
        [(str ''/'', [(str ''sid'', PStr (str ''1''))]), (str ''/star'', [(str ''sid'', PStr (str ''2''))])])]\<rparr>"

definition one_session :: world where
  "one_session = fresh_world\<lparr>cookies :=
     [(str ''bbs.uestc.edu.cn'', [(str ''/'', [(str ''sid'', PStr (str ''abc'')), (str ''flag'', PNone)])])]\<rparr>"

section \<open>Requests and their faults\<close>

lemma str_in_appendI: "s = pre @ sub @ post \<Longrightarrow> str_in sub s"
  by (auto simp: str_in_def sublist_def)

lemma no_welcome: "\<not> str_in welcome_marker (str ''wrong password'')"
  by (simp add: str_in_def welcome_marker_def str_def sublist_Cons_right)

text \<open>
  The two steps \<open>r = session.get(...)\<close> (or \<open>post\<close>) and \<open>r.raise_for_status()\<close> end in
  an exception exactly when the request raised or the status is 4xx or 5xx.
\<close>

lemma fetch_cases:
  "bind_exn (received out) raise_for_status =
     (case reply out of
        Failed m \<Rightarrow> Inl (RequestException m)
      | Replied r \<Rightarrow> if 400 \<le> status_code r \<and> status_code r < 600 then Inl (HTTPError (status_code r)) else Inr r)"
  by (simp add: bind_exn_def received_def raise_for_status_def split: http_reply.splits)

lemma fetch_authorization_Inr:
  "(fetch_authorization out = Inr a) =
   (\<exists>r j d. reply out = Replied r \<and> \<not> (400 \<le> status_code r \<and> status_code r < 600) \<and> rjson r = Some j
      \<and> subscript j (str ''data'') = Inr d \<and> subscript d (str ''authorization'') = Inr a)"
  by (auto simp: fetch_authorization_def bind_exn_def received_def raise_for_status_def response_json_def
      split: http_reply.splits sum.splits option.splits)

lemma fetch_authorization_token_page:
  "fetch_authorization (token_page st tk) = (if 400 \<le> st \<and> st < 600 then Inl (HTTPError st) else Inr (PStr tk))"
  by (simp add: fetch_authorization_def bind_exn_def received_def raise_for_status_def response_json_def
      subscript_def token_page_def str_def)

lemma login_try_fault:
  "bind_exn (received post) raise_for_status = Inl e \<Longrightarrow>
   login_try post wr tok w = (Inl e, send (Post login_url (login_form w)) post w)"
  by (simp add: login_try_def Let_def)

lemma login_try_response:
  "bind_exn (received post) raise_for_status = Inr r \<Longrightarrow>
   login_try post wr tok w =
     (let w1 = send (Post login_url (login_form w)) post w
      in if str_in welcome_marker (rtext r)
         then (Inr (fst (update_authorization tok (save_cookies wr w1))),
               snd (update_authorization tok (save_cookies wr w1)))
         else (Inl (HepanException (login_failed_message (username w) (password w) (rtext r))), w1))"
  by (simp add: login_try_def Let_def send_def split: prod.splits)

section \<open>The session validity check\<close>

text \<open>
  Claim C6, as stated, fails for an error status: a page of status 404 whose body
  holds the logout marker contains one of the three markers, and \<open>check_login_status\<close>
  returns false, because \<open>raise_for_status\<close> raises inside the \<open>try\<close> before the body is
  looked at.
\<close>

theorem check_login_status_404_counterexample:
  "str_in logout_marker (rtext \<lparr>status_code = 404, rtext = str ''<a>'' @ logout_marker, rjson = None, soup = []\<rparr>)
   \<and> reply (page 404 (str ''<a>'' @ logout_marker)) =
       Replied \<lparr>status_code = 404, rtext = str ''<a>'' @ logout_marker, rjson = None, soup = []\<rparr>
   \<and> fst (check_login_status (page 404 (str ''<a>'' @ logout_marker)) fresh_world) = False"
proof -
  have "str_in logout_marker (str ''<a>'' @ logout_marker)"
    by (rule str_in_appendI [of _ "str ''<a>''" _ "[]"]) simp
  then show ?thesis
    by (simp add: check_login_status_def Let_def fetch_cases page_def)
qed

text \<open>
  Claim C6, amended. \<open>check_login_status\<close> returns a boolean and never raises (its
  result has no exception). It returns true if and only if the GET of the site root
  gave a response that \<open>raise_for_status\<close> accepts (a status that is not 4xx or 5xx)
  and whose body contains one of the three markers. A request that raises (a time-out,
  for one) gives false.
\<close>

theorem check_login_status_markers:
  "(fst (check_login_status out w) \<longleftrightarrow>
      (\<exists>r. reply out = Replied r \<and> \<not> (400 \<le> status_code r \<and> status_code r < 600)
         \<and> (str_in welcome_marker (rtext r) \<or> str_in logout_marker (rtext r) \<or> str_in panel_marker (rtext r))))
   \<and> fst (check_login_status (out\<lparr>reply := Failed m\<rparr>) w) = False"
  by (auto simp: check_login_status_def Let_def fetch_cases logged_in_page_def split: http_reply.splits)

theorem check_login_status_markers_witness:
  "fst (check_login_status (page 200 (str ''<a>'' @ logout_marker)) fresh_world)
   \<and> \<not> fst (check_login_status (timed_out\<lparr>reply := Failed (str ''reset'')\<rparr>) fresh_world)"
proof -
  have "str_in logout_marker (str ''<a>'' @ logout_marker)"
    by (rule str_in_appendI [of _ "str ''<a>''" _ "[]"]) simp
  then show ?thesis
    using check_login_status_markers [of "page 200 (str ''<a>'' @ logout_marker)" fresh_world "str ''reset''"]
      check_login_status_markers [of timed_out fresh_world "str ''reset''"]
    by (auto simp: page_def)
qed

section \<open>The token exchange\<close>

text \<open>
  Claim C10, as stated, fails for a status outside 2xx that is not an error status:
  with status 300 and a body that has the token, \<open>update_authorization\<close> returns true
  and installs the header.
\<close>

theorem update_authorization_status_300_counterexample:
  "fst (update_authorization (token_page 300 (str ''abc'')) fresh_world)
   \<and> headers (snd (update_authorization (token_page 300 (str ''abc'')) fresh_world)) (str ''authorization'')
       = Some (str ''Authorization'', PStr (str ''abc''))
   \<and> headers fresh_world (str ''authorization'') = None"
  by (simp add: update_authorization_def fetch_authorization_token_page fresh_world_def send_def Let_def)

text \<open>
  Claim C10, amended. \<open>update_authorization\<close> returns true exactly when the request
  gave a response whose status is not 4xx or 5xx and whose JSON body has the nested
  field \<open>data.authorization\<close>; so it returns false on a request that raised, on a 4xx
  or 5xx status and on a body without the field. Whenever it returns false the
  session's headers are what they were: the header is set only on the path that
  returns true.
\<close>

theorem update_authorization_failure:
  "(fst (update_authorization out w) \<longleftrightarrow>
      (\<exists>r j d a. reply out = Replied r \<and> \<not> (400 \<le> status_code r \<and> status_code r < 600) \<and> rjson r = Some j
         \<and> subscript j (str ''data'') = Inr d \<and> subscript d (str ''authorization'') = Inr a))
   \<and> (\<not> fst (update_authorization out w) \<longrightarrow> headers (snd (update_authorization out w)) = headers w)"
proof -
  have "fst (update_authorization out w) \<longleftrightarrow> (\<exists>a. fetch_authorization out = Inr a)"
    by (simp add: update_authorization_def Let_def split: sum.splits)
  moreover have "\<not> fst (update_authorization out w) \<Longrightarrow> headers (snd (update_authorization out w)) = headers w"
    by (simp add: update_authorization_def Let_def send_def print_line_def split: sum.splits)
  ultimately show ?thesis
    by (auto simp: fetch_authorization_Inr)
qed

theorem update_authorization_failure_witness:
  "\<not> fst (update_authorization (token_page 500 (str ''abc'')) fresh_world)
   \<and> headers (snd (update_authorization (token_page 500 (str ''abc'')) fresh_world)) = headers fresh_world"
proof -
  have "\<not> fst (update_authorization (token_page 500 (str ''abc'')) fresh_world)"
    using update_authorization_failure [of "token_page 500 (str ''abc'')" fresh_world]
    by (simp add: token_page_def)
  then show ?thesis
    using update_authorization_failure [of "token_page 500 (str ''abc'')" fresh_world]
    by simp
qed

section \<open>Login\<close>

text \<open>
  Claim C7, as stated, fails for a status outside 2xx that is not an error status:
  with status 300 and a body without the welcome marker, \<open>login\<close> raises
  \<open>HepanException\<close>.
\<close>

theorem login_status_300_counterexample:
  "fst (login (page 300 (str ''wrong password'')) Written timed_out fresh_world) =
     Inl (HepanException (login_failed_message None None (str ''wrong password'')))"
  using no_welcome
  by (simp add: login_def login_try_response fetch_cases page_def Let_def fresh_world_def)

text \<open>
  Claim C7, amended. When the login request raises (time-out, DNS failure, reset
  connection) or its response has a 4xx or 5xx status, \<open>login\<close> does not raise: it
  prints the exception and returns \<open>False\<close>, and nothing else changes but the request
  log and the jar.
\<close>

theorem login_transport_fault:
  assumes "(reply post = Failed m \<and> e = RequestException m)
         \<or> (\<exists>r. reply post = Replied r \<and> 400 \<le> status_code r \<and> status_code r < 600 \<and> e = HTTPError (status_code r))"
  shows "login post wr tok w =
           (Inr False, print_line (PrintedExn [] e) (send (Post login_url (login_form w)) post w))"
proof -
  from assms have "bind_exn (received post) raise_for_status = Inl e"
    by (auto simp: fetch_cases)
  then show ?thesis
    using assms by (auto simp: login_def login_try_fault)
qed

theorem login_transport_fault_witness:
  "login timed_out Written timed_out fresh_world =
     (Inr False, print_line (PrintedExn [] (RequestException (str ''timed out'')))
        (send (Post login_url (login_form fresh_world)) timed_out fresh_world))"
  using login_transport_fault [of timed_out "str ''timed out''" "RequestException (str ''timed out'')" Written timed_out fresh_world]
  by (simp add: timed_out_def)

text \<open>
  Claim C1, as stated, fails: the text of the raised error contains the password.
  For the user \<open>alice\<close> with the password \<open>hunter2\<close> and a page without the marker:
\<close>

theorem login_rejected_password_counterexample:
  "fst (login (page 200 (str ''wrong password'')) Written timed_out alice) =
     Inl (HepanException (login_failed_message (Some (str ''alice'')) (Some (str ''hunter2'')) (str ''wrong password'')))
   \<and> str_in (str ''hunter2'') (login_failed_message (Some (str ''alice'')) (Some (str ''hunter2'')) (str ''wrong password''))"
proof -
  have "str_in (str ''hunter2'') (login_failed_message (Some (str ''alice'')) (Some (str ''hunter2'')) (str ''wrong password''))"
    by (rule str_in_appendI [of _ "[0x767B, 0x5F55, 0x5931, 0x8D25] @ str '' username=alice, password=''" _
          "[10] @ str ''wrong password''"])
       (simp add: login_failed_message_def format_field_def str_def)
  with no_welcome show ?thesis
    by (simp add: login_def login_try_response fetch_cases page_def Let_def alice_def fresh_world_def)
qed

text \<open>
  Claim C1, amended. When the login request gives a response whose status is not 4xx
  or 5xx and whose body lacks the welcome marker, \<open>login\<close> raises \<open>HepanException\<close>,
  and the text of the error is the failure notice followed by \<open>username=\<close> and the
  user name, \<open>password=\<close> and the password, a line break and the raw response body:
  the user name and the body occur in it, and so does the password.
\<close>

theorem login_rejected_message:
  assumes "reply post = Replied r" and "\<not> (400 \<le> status_code r \<and> status_code r < 600)"
    and "\<not> str_in welcome_marker (rtext r)"
  shows "fst (login post wr tok w) =
           Inl (HepanException ([0x767B, 0x5F55, 0x5931, 0x8D25] @ str '' username='' @ format_field (username w)
                  @ str '', password='' @ format_field (password w) @ [10] @ rtext r))
       \<and> str_in (format_field (username w)) (login_failed_message (username w) (password w) (rtext r))
       \<and> str_in (rtext r) (login_failed_message (username w) (password w) (rtext r))
       \<and> str_in (format_field (password w)) (login_failed_message (username w) (password w) (rtext r))"
proof -
  let ?m = "login_failed_message (username w) (password w) (rtext r)"
  from assms have "bind_exn (received post) raise_for_status = Inr r"
    by (simp add: fetch_cases)
  with assms(3) have "fst (login post wr tok w) = Inl (HepanException ?m)"
    by (simp add: login_def login_try_response Let_def)
  moreover have "str_in (format_field (username w)) ?m"
    by (rule str_in_appendI [of _ "[0x767B, 0x5F55, 0x5931, 0x8D25] @ str '' username=''" _
          "str '', password='' @ format_field (password w) @ [10] @ rtext r"])
       (simp add: login_failed_message_def)
  moreover have "str_in (rtext r) ?m"
    by (rule str_in_appendI [of _ "[0x767B, 0x5F55, 0x5931, 0x8D25] @ str '' username='' @ format_field (username w)
          @ str '', password='' @ format_field (password w) @ [10]" _ "[]"])
       (simp add: login_failed_message_def)
  moreover have "str_in (format_field (password w)) ?m"
    by (rule str_in_appendI [of _ "[0x767B, 0x5F55, 0x5931, 0x8D25] @ str '' username='' @ format_field (username w)
          @ str '', password=''" _ "[10] @ rtext r"])
       (simp add: login_failed_message_def)
  ultimately show ?thesis
    by (simp add: login_failed_message_def)
qed

theorem login_rejected_message_witness:
  "fst (login (page 200 (str ''wrong password'')) Written timed_out alice) =
     Inl (HepanException ([0x767B, 0x5F55, 0x5931, 0x8D25] @ str '' username=alice, password=hunter2''
            @ [10] @ str ''wrong password''))
   \<and> str_in (str ''hunter2'') (login_failed_message (Some (str ''alice'')) (Some (str ''hunter2'')) (str ''wrong password''))"
  using no_welcome login_rejected_message [of "page 200 (str ''wrong password'')"
        "\<lparr>status_code = 200, rtext = str ''wrong password'', rjson = None, soup = []\<rparr>" Written timed_out alice]
  by (simp add: page_def alice_def fresh_world_def format_field_def str_def)

lemma update_authorization_fst: "fst (update_authorization out w) \<longleftrightarrow> (\<exists>a. fetch_authorization out = Inr a)"
  by (simp add: update_authorization_def Let_def split: sum.splits)

lemma update_authorization_Inr:
  "fetch_authorization out = Inr a \<Longrightarrow>
   update_authorization out w =
     (True, (send (Post token_url []) out w)\<lparr>headers := (headers w)(str ''authorization'' \<mapsto> (str ''Authorization'', a))\<rparr>)"
  by (simp add: update_authorization_def Let_def send_def)

lemma save_cookies_file:
  "cookie_file (save_cookies wr w) =
     (case wr of Written \<Rightarrow> Some (json_dumps (PDict (dict_from_cookiejar (cookies w)))) | WriteFailed e left \<Rightarrow> left)"
  by (simp add: save_cookies_def print_line_def split: fs_write.splits)

lemma has_welcome: "str_in welcome_marker (str ''<p>'' @ welcome_marker)"
  by (rule str_in_appendI [of _ "str ''<p>''" _ "[]"]) simp

text \<open>
  Claim C2, as stated, fails in its second half: \<open>login\<close> returns \<open>True\<close> with
  an empty token installed when the token endpoint sends one, and with no record
  written when the write fails (which \<open>save_cookies\<close> only reports).
\<close>

theorem login_success_empty_token_counterexample:
  "fst (login (page 200 (str ''<p>'' @ welcome_marker)) (WriteFailed (OSError (str ''read-only'')) None)
          (token_page 200 []) alice) = Inr True
   \<and> headers (snd (login (page 200 (str ''<p>'' @ welcome_marker)) (WriteFailed (OSError (str ''read-only'')) None)
          (token_page 200 []) alice)) (str ''authorization'') = Some (str ''Authorization'', PStr [])
   \<and> cookie_file (snd (login (page 200 (str ''<p>'' @ welcome_marker)) (WriteFailed (OSError (str ''read-only'')) None)
          (token_page 200 []) alice)) = None"
proof -
  have "bind_exn (received (page 200 (str ''<p>'' @ welcome_marker))) raise_for_status
        = Inr \<lparr>status_code = 200, rtext = str ''<p>'' @ welcome_marker, rjson = None, soup = []\<rparr>"
    by (simp add: fetch_cases page_def)
  then show ?thesis
    using has_welcome
    by (simp add: login_def login_try_response Let_def update_authorization_Inr fetch_authorization_token_page
        save_cookies_def print_line_def send_def)
qed

text \<open>
  Claim C2, amended. \<open>login\<close> returns \<open>True\<close> if and only if the login request gave
  a response that \<open>raise_for_status\<close> accepts, whose body contains the welcome
  marker, and the token exchange that follows succeeds. On that path
  \<open>save_cookies\<close> has run before the exchange, so \<open>cookies.json\<close> holds the
  serialized cookies of the session when the write succeeded and is as the failed
  write left it otherwise; and the \<open>Authorization\<close> header holds the value of
  \<open>data.authorization\<close>, whatever it is.
\<close>

theorem login_success:
  "(fst (login post wr tok w) = Inr True \<longleftrightarrow>
      (\<exists>r a. reply post = Replied r \<and> \<not> (400 \<le> status_code r \<and> status_code r < 600)
         \<and> str_in welcome_marker (rtext r) \<and> fetch_authorization tok = Inr a))
   \<and> (fst (login post wr tok w) = Inr True \<longrightarrow>
        (\<exists>a. fetch_authorization tok = Inr a
           \<and> headers (snd (login post wr tok w)) (str ''authorization'') = Some (str ''Authorization'', a))
        \<and> cookie_file (snd (login post wr tok w)) =
            (case wr of
               Written \<Rightarrow> Some (json_dumps (PDict (dict_from_cookiejar (jar_after post))))
             | WriteFailed e left \<Rightarrow> left))"
proof (cases "bind_exn (received post) raise_for_status")
  case (Inl e)
  then have "fst (login post wr tok w) \<noteq> Inr True"
    by (cases e) (simp_all add: login_def login_try_fault)
  moreover from Inl have "\<not> (\<exists>r. reply post = Replied r \<and> \<not> (400 \<le> status_code r \<and> status_code r < 600))"
    by (auto simp: fetch_cases split: http_reply.splits if_splits)
  ultimately show ?thesis by auto
next
  case (Inr r)
  then have r: "reply post = Replied r" "\<not> (400 \<le> status_code r \<and> status_code r < 600)"
    by (auto simp: fetch_cases split: http_reply.splits if_splits)
  show ?thesis
  proof (cases "str_in welcome_marker (rtext r)")
    case False
    with Inr r show ?thesis
      by (auto simp: login_def login_try_response Let_def)
  next
    case True
    show ?thesis
    proof (cases "fetch_authorization tok")
      case (Inl e)
      with Inr True r show ?thesis
        by (auto simp: login_def login_try_response Let_def update_authorization_fst)
    next
      case a: (Inr a)
      let ?w1 = "save_cookies wr (send (Post login_url (login_form w)) post w)"
      have "login post wr tok w = (Inr True, snd (update_authorization tok ?w1))"
        using Inr True a by (simp add: login_def login_try_response Let_def update_authorization_Inr)
      moreover have "headers (snd (update_authorization tok ?w1)) (str ''authorization'') = Some (str ''Authorization'', a)"
        using a by (simp add: update_authorization_Inr)
      moreover have "cookie_file (snd (update_authorization tok ?w1)) = cookie_file ?w1"
        using a by (simp add: update_authorization_Inr send_def)
      moreover have "cookies (send (Post login_url (login_form w)) post w) = jar_after post"
        by (simp add: send_def)
      ultimately show ?thesis
        using r True a by (auto simp: save_cookies_file split: fs_write.splits)
    qed
  qed
qed

theorem login_success_witness:
  "fst (login (page 200 (str ''<p>'' @ welcome_marker)) Written (token_page 200 (str ''abc'')) alice) = Inr True
   \<and> headers (snd (login (page 200 (str ''<p>'' @ welcome_marker)) Written (token_page 200 (str ''abc'')) alice))
        (str ''authorization'') = Some (str ''Authorization'', PStr (str ''abc''))
   \<and> cookie_file (snd (login (page 200 (str ''<p>'' @ welcome_marker)) Written (token_page 200 (str ''abc'')) alice))
        = Some (str ''{}'')"
proof -
  let ?post = "page 200 (str ''<p>'' @ welcome_marker)"
  let ?tok = "token_page 200 (str ''abc'')"
  have ok: "fst (login ?post Written ?tok alice) = Inr True"
    using login_success [of ?post Written ?tok alice] has_welcome
    by (simp add: page_def fetch_authorization_token_page)
  have "json_dumps (PDict (dict_from_cookiejar (jar_after ?post))) = str ''{}''"
    by (simp add: page_def dict_from_cookiejar_def jar_items_def dict_of_pairs_def str_def)
  with ok show ?thesis
    using login_success [of ?post Written ?tok alice]
    by (simp add: fetch_authorization_token_page)
qed

section \<open>The constructor\<close>

lemma load_cookies_present:
  "cookie_file w = Some txt \<Longrightarrow>
   load_cookies w =
     (Inr (), case read_cookies txt of
                Inr j \<Rightarrow> w\<lparr>cookies := j\<rparr>
              | Inl e \<Rightarrow> if txt = [] then w else print_line (PrintedExn load_failed e) w)"
  by (simp add: load_cookies_def split: sum.splits)

lemma init_load_ok: "fst (init_load u p w) = Inr ()"
  by (simp add: init_load_def Let_def load_cookies_present split: option.splits)

lemma init_load_requests: "requests (snd (init_load u p w)) = requests w"
  by (simp add: init_load_def Let_def load_cookies_present print_line_def split: option.splits sum.splits)

lemma check_login_status_requests: "requests (snd (check_login_status out w)) = requests w @ [Get root_url]"
  by (simp add: check_login_status_def Let_def send_def split: sum.splits)

text \<open>
  Claim C8. With \<open>autoLogin\<close> true and no credentials (a user name or a password
  that is \<open>None\<close> or empty), the constructor runs \<open>check_login_status\<close> on the
  session as the loading step left it. When the check says no, the constructor raises
  the exception "Cookie ... " of line 59; when it says yes, it prints the notice and
  returns. Either way the only request sent is the GET of the site root: no login is
  attempted.
\<close>

theorem init_without_credentials:
  assumes "\<not> (truthy u \<and> truthy p)"
  shows "init u p True post wr tok home w =
           (if fst (check_login_status home (snd (init_load u p w)))
            then (Inr (), print_line (Printed entered_home) (snd (check_login_status home (snd (init_load u p w)))))
            else (Inl (Exception session_invalid), snd (check_login_status home (snd (init_load u p w)))))
         \<and> requests (snd (init u p True post wr tok home w)) = requests w @ [Get root_url]"
proof -
  obtain w1 where w1: "init_load u p w = (Inr (), w1)"
    using init_load_ok [of u p w] by (cases "init_load u p w") auto
  obtain ok w2 where c: "check_login_status home w1 = (ok, w2)"
    by (cases "check_login_status home w1")
  have "requests w2 = requests w @ [Get root_url]"
    using check_login_status_requests [of home w1] init_load_requests [of u p w] w1 c by simp
  with assms w1 c show ?thesis
    by (cases ok) (auto simp: init_def print_line_def)
qed

theorem init_without_credentials_witness:
  "init None None True timed_out Written timed_out timed_out fresh_world =
     (Inl (Exception session_invalid), fresh_world\<lparr>requests := [Get root_url]\<rparr>)"
proof -
  have "init_load None None fresh_world = (Inr (), fresh_world)"
    by (simp add: init_load_def fresh_world_def)
  moreover have "check_login_status timed_out fresh_world = (False, fresh_world\<lparr>requests := [Get root_url]\<rparr>)"
    by (simp add: check_login_status_def fetch_cases timed_out_def send_def fresh_world_def)
  ultimately show ?thesis
    using init_without_credentials [of None None timed_out Written timed_out timed_out fresh_world]
    by (simp add: truthy_def)
qed

section \<open>The call bound of the decoder\<close>

text \<open>
  Every parser returns a text shorter than the one it was given, so the calls of
  \<open>scan_once\<close> and of the item parsers nest at most twice for each character. A value
  found with any bound is found with the bound \<open>json_loads\<close> starts from: no text is
  refused for want of calls.
\<close>

lemma skip_ws_length: "length (skip_ws s) \<le> length s"
  by (simp add: skip_ws_def length_dropWhile_le)

lemma scanstring_length: "scanstring s = Some (v, r) \<Longrightarrow> length r < length s"
proof (induction "length s" arbitrary: s v r rule: less_induct)
  case less
  show ?case
  proof (cases s)
    case Nil
    with less.prems show ?thesis by simp
  next
    case (Cons c cs)
    have ih: "length r' < length t" if "scanstring t = Some (v', r')" and "length t \<le> length cs" for t v' r'
      using less.hyps [of t v' r'] that Cons by simp
    from less.prems Cons show ?thesis
      by (auto split: if_splits list.splits option.splits dest!: ih)
  qed
qed

lemma match_number_length:
  assumes "match_number s = Some (v, r)"
  shows "length r < length s"
proof -
  obtain sign :: ustr and s1
    where p: "(case s of c # cs \<Rightarrow> if c = 45 then ([45], cs) else ([], s) | [] \<Rightarrow> ([], s)) = (sign, s1)"
    by (cases "case s of c # cs \<Rightarrow> if c = 45 then ([45::nat], cs) else ([], s) | [] \<Rightarrow> ([], s)") blast
  define ip where "ip = (case s1 of c # cs \<Rightarrow> if c = 48 then [48] else takeWhile is_digit s1 | [] \<Rightarrow> [])"
  have s1: "length s1 \<le> length s"
    using p by (auto split: list.splits if_splits)
  have ip: "length ip \<le> length s1"
    by (simp add: ip_def length_takeWhile_le split: list.splits)
  from assms have "ip \<noteq> [] \<and> length r \<le> length s1 - length ip"
    unfolding match_number_def Let_def p prod.case ip_def
    by (auto split: if_splits)
  with s1 ip show ?thesis
    by (cases ip) auto
qed

lemma skip_ws_Cons_length: "skip_ws s = c # cs \<Longrightarrow> length cs < length s"
  using skip_ws_length [of s] by simp

lemma scan_once_length:
  "scan_once n s = Some (v, r) \<Longrightarrow> length r < length s"
  "array_items n s = Some (vs, r) \<Longrightarrow> length r < length s"
  "object_items n s = Some (kvs, r) \<Longrightarrow> length r < length s"
proof (induction n s and n s and n s arbitrary: v r and vs r and kvs r
    rule: scan_once_array_items_object_items.induct)
  case (1 s)
  then show ?case by simp
next
  case (2 n s)
  show ?case
  proof (cases s)
    case Nil
    with "2.prems" show ?thesis by simp
  next
    case (Cons c cs)
    note ws = skip_ws_length [of cs]
    consider (str) "c = 34" | (obj) "c = 123" | (arr) "c = 91" | (other) "c \<noteq> 34" "c \<noteq> 123" "c \<noteq> 91"
      by blast
    then show ?thesis
    proof cases
      case str
      with "2.prems" Cons show ?thesis
        by (auto dest: scanstring_length)
    next
      case obj
      show ?thesis
      proof (cases "take 1 (skip_ws cs) = str ''}''")
        case True
        with "2.prems" Cons obj ws show ?thesis by auto
      next
        case False
        with "2.prems" Cons obj obtain kvs where "object_items n (skip_ws cs) = Some (kvs, r)"
          by auto
        from "2.IH"(1) [OF Cons _ obj False this] Cons obj ws show ?thesis by simp
      qed
    next
      case arr
      show ?thesis
      proof (cases "take 1 (skip_ws cs) = str '']''")
        case True
        with "2.prems" Cons arr ws show ?thesis by auto
      next
        case False
        with "2.prems" Cons arr obtain vs where "array_items n (skip_ws cs) = Some (vs, r)"
          by auto
        from "2.IH"(2) [OF Cons _ _ arr False this] Cons arr ws show ?thesis by simp
      qed
    next
      case other
      from "2.prems" other Cons show ?thesis
        by (auto split: if_splits option.splits dest: match_number_length)
    qed
  qed
next
  case (3 s)
  then show ?case by simp
next
  case (4 n s)
  from "4.prems" obtain v r1 where v: "scan_once n s = Some (v, r1)"
    by (auto split: option.splits)
  from "4.IH"(1) [OF v] have l1: "length r1 < length s" .
  from "4.prems" v obtain c cs where ws: "skip_ws r1 = c # cs"
    by (auto split: list.splits)
  from skip_ws_Cons_length [OF ws] l1 have l2: "length cs < length s" by simp
  show ?case
  proof (cases "c = 93")
    case True
    with "4.prems" v ws l2 show ?thesis by auto
  next
    case False
    with "4.prems" v ws have c: "c = 44" and "\<exists>vs'. array_items n (skip_ws cs) = Some (vs', r)"
      by (auto split: if_splits)
    then obtain vs' where "array_items n (skip_ws cs) = Some (vs', r)" by blast
    from "4.IH"(2) [OF v refl ws False c this] skip_ws_length [of cs] l2 show ?thesis by simp
  qed
next
  case (5 s)
  then show ?case by simp
next
  case (6 n s)
  from "6.prems" obtain qs where s: "s = 34 # qs"
    by (cases s) (auto split: if_splits)
  from "6.prems" s obtain k r1 where k: "scanstring qs = Some (k, r1)"
    by (auto split: option.splits)
  from scanstring_length [OF k] s have l1: "length r1 < length s" by simp
  from "6.prems" s k obtain cs where ws: "skip_ws r1 = 58 # cs"
    by (auto split: list.splits if_splits)
  from skip_ws_Cons_length [OF ws] skip_ws_length [of cs] l1 have l2: "length (skip_ws cs) < length s"
    by simp
  from "6.prems" s k ws obtain v r2 where v: "scan_once n (skip_ws cs) = Some (v, r2)"
    by (auto split: option.splits)
  from "6.IH"(1) [OF s _ k refl ws _ v] l2 have l3: "length r2 < length s" by simp
  from "6.prems" s k ws v obtain d ds where ws2: "skip_ws r2 = d # ds"
    by (auto split: list.splits)
  from skip_ws_Cons_length [OF ws2] l3 have l4: "length ds < length s" by simp
  show ?case
  proof (cases "d = 125")
    case True
    with "6.prems" s k ws v ws2 l4 show ?thesis by auto
  next
    case False
    with "6.prems" s k ws v ws2 have d: "d = 44" and "\<exists>kvs'. object_items n (skip_ws ds) = Some (kvs', r)"
      by (auto split: if_splits)
    then obtain kvs' where "object_items n (skip_ws ds) = Some (kvs', r)" by blast
    from "6.IH"(2) [OF s _ k refl ws _ v refl ws2 False d this] skip_ws_length [of ds] l4 show ?thesis by simp
  qed
qed

lemma scan_once_fuel:
  "scan_once m s = Some x \<Longrightarrow> 2 * length s + 1 \<le> n \<Longrightarrow> scan_once n s = Some x"
  "array_items m s = Some y \<Longrightarrow> 2 * length s + 2 \<le> n \<Longrightarrow> array_items n s = Some y"
  "object_items m s = Some z \<Longrightarrow> 2 * length s + 2 \<le> n \<Longrightarrow> object_items n s = Some z"
proof (induction m s and m s and m s arbitrary: x n and y n and z n
    rule: scan_once_array_items_object_items.induct)
  case (1 s)
  then show ?case by simp
next
  case (2 m s)
  from "2.prems"(2) obtain n' where n: "n = Suc n'" and n': "2 * length s \<le> n'"
    by (cases n) auto
  show ?case
  proof (cases s)
    case Nil
    with "2.prems" show ?thesis by simp
  next
    case (Cons c cs)
    from n' Cons skip_ws_length [of cs] have ws: "2 * length (skip_ws cs) + 2 \<le> n'"
      by simp
    consider (obj) "c = 123" "take 1 (skip_ws cs) \<noteq> str ''}''"
      | (arr) "c = 91" "take 1 (skip_ws cs) \<noteq> str '']''"
      | (other) "\<not> (c = 123 \<and> take 1 (skip_ws cs) \<noteq> str ''}'')"
          "\<not> (c = 91 \<and> take 1 (skip_ws cs) \<noteq> str '']'')"
      by blast
    then show ?thesis
    proof cases
      case obj
      with "2.prems"(1) Cons obtain kvs r where o: "object_items m (skip_ws cs) = Some (kvs, r)"
        and x: "x = (PDict (dict_of_pairs kvs), r)"
        by auto
      from "2.IH"(1) [OF Cons _ obj o ws] obj have "object_items n' (skip_ws cs) = Some (kvs, r)"
        by simp
      with n Cons obj x show ?thesis by simp
    next
      case arr
      with "2.prems"(1) Cons obtain vs r where a: "array_items m (skip_ws cs) = Some (vs, r)"
        and x: "x = (PList vs, r)"
        by auto
      from "2.IH"(2) [OF Cons _ _ arr a ws] arr have "array_items n' (skip_ws cs) = Some (vs, r)"
        by simp
      with n Cons arr x show ?thesis by simp
    next
      case other
      with Cons have "scan_once (Suc n') s = scan_once (Suc m) s"
        by auto
      with n "2.prems"(1) show ?thesis by simp
    qed
  qed
next
  case (3 s)
  then show ?case by simp
next
  case (4 m s)
  from "4.prems"(2) obtain n' where n: "n = Suc n'" and n': "2 * length s + 1 \<le> n'"
    by (cases n) auto
  from "4.prems"(1) obtain v r1 where v: "scan_once m s = Some (v, r1)"
    by (auto split: option.splits)
  from "4.IH"(1) [OF v n'] have v': "scan_once n' s = Some (v, r1)" .
  from scan_once_length(1) [OF v] have l1: "length r1 < length s" .
  from "4.prems"(1) v obtain c cs where ws: "skip_ws r1 = c # cs"
    by (auto split: list.splits)
  from skip_ws_Cons_length [OF ws] skip_ws_length [of cs] l1 n'
  have l2: "2 * length (skip_ws cs) + 2 \<le> n'" by simp
  show ?case
  proof (cases "c = 93")
    case True
    with "4.prems"(1) v v' ws n show ?thesis by simp
  next
    case False
    with "4.prems"(1) v ws have c: "c = 44" and "\<exists>vs'. array_items m (skip_ws cs) = Some (vs', snd y) \<and> y = (v # vs', snd y)"
      by (auto split: if_splits)
    then obtain vs' where a: "array_items m (skip_ws cs) = Some (vs', snd y)" and y: "y = (v # vs', snd y)"
      by blast
    from "4.IH"(2) [OF v refl ws False c a l2] have "array_items n' (skip_ws cs) = Some (vs', snd y)" .
    with n v' ws c y show ?thesis by simp
  qed
next
  case (5 s)
  then show ?case by simp
next
  case (6 m s)
  from "6.prems"(2) obtain n' where n: "n = Suc n'" and n': "2 * length s + 1 \<le> n'"
    by (cases n) auto
  from "6.prems"(1) obtain qs where s: "s = 34 # qs"
    by (cases s) (auto split: if_splits)
  from "6.prems"(1) s obtain k r1 where k: "scanstring qs = Some (k, r1)"
    by (auto split: option.splits)
  from scanstring_length [OF k] s have l1: "length r1 < length s" by simp
  from "6.prems"(1) s k obtain cs where ws: "skip_ws r1 = 58 # cs"
    by (auto split: list.splits if_splits)
  from skip_ws_Cons_length [OF ws] skip_ws_length [of cs] l1 have l2: "length (skip_ws cs) < length s"
    by simp
  from "6.prems"(1) s k ws obtain v r2 where v: "scan_once m (skip_ws cs) = Some (v, r2)"
    by (auto split: option.splits)
  from l2 n' have "2 * length (skip_ws cs) + 1 \<le> n'" by simp
  from "6.IH"(1) [OF s _ k refl ws _ v this] have v': "scan_once n' (skip_ws cs) = Some (v, r2)"
    by simp
  from scan_once_length(1) [OF v] l2 have l3: "length r2 < length s" by simp
  from "6.prems"(1) s k ws v obtain d ds where ws2: "skip_ws r2 = d # ds"
    by (auto split: list.splits)
  from skip_ws_Cons_length [OF ws2] skip_ws_length [of ds] l3 n'
  have l4: "2 * length (skip_ws ds) + 2 \<le> n'" by simp
  show ?case
  proof (cases "d = 125")
    case True
    with "6.prems"(1) s k ws v v' ws2 n show ?thesis by simp
  next
    case False
    with "6.prems"(1) s k ws v ws2 have d: "d = 44"
      and "\<exists>kvs'. object_items m (skip_ws ds) = Some (kvs', snd z) \<and> z = ((k, v) # kvs', snd z)"
      by (auto split: if_splits)
    then obtain kvs' where o: "object_items m (skip_ws ds) = Some (kvs', snd z)"
      and z: "z = ((k, v) # kvs', snd z)"
      by blast
    from "6.IH"(2) [OF s _ k refl ws _ v refl ws2 False d o l4]
    have "object_items n' (skip_ws ds) = Some (kvs', snd z)" by simp
    with n s k ws v' ws2 d z show ?thesis by simp
  qed
qed

lemma json_loads_fuel:
  "(\<exists>m. scan_once m (skip_ws s) = Some x) \<longleftrightarrow> scan_once (2 * length s + 2) (skip_ws s) = Some x"
proof
  assume "\<exists>m. scan_once m (skip_ws s) = Some x"
  then obtain m where m: "scan_once m (skip_ws s) = Some x" ..
  from skip_ws_length [of s] have "2 * length (skip_ws s) + 1 \<le> 2 * length s + 2"
    by simp
  from scan_once_fuel(1) [OF m this] show "scan_once (2 * length s + 2) (skip_ws s) = Some x" .
next
  assume "scan_once (2 * length s + 2) (skip_ws s) = Some x"
  then show "\<exists>m. scan_once m (skip_ws s) = Some x" ..
qed

section \<open>Loading the saved cookies\<close>




section \<open>The page scraper\<close>

subsection \<open>Splitting a link\<close>



lemma prefix_short: "prefix xs (ys @ zs) \<Longrightarrow> length xs \<le> length ys \<Longrightarrow> prefix xs ys"
  by (auto simp: prefix_append)

lemma prefix_in_front:
  assumes "prefix sep (pre @ sep @ rest)" and "pre \<noteq> []" and "sep \<noteq> []"
  shows "prefix sep (pre @ butlast sep)"
proof -
  have "pre @ sep @ rest = (pre @ butlast sep) @ (last sep # rest)"
    using assms(3) by simp
  moreover have "length sep \<le> length (pre @ butlast sep)"
    using assms(2,3) by (cases pre) auto
  ultimately show ?thesis
    using assms(1) prefix_short by metis
qed

lemma split_from_first:
  "sep \<noteq> [] \<Longrightarrow> \<not> sublist sep (pre @ butlast sep) \<Longrightarrow>
   split_from sep cur (pre @ sep @ rest) = (cur @ pre) # split_from sep [] rest"
proof (induction pre arbitrary: cur)
  case Nil
  then obtain c cs where sep: "sep = c # cs"
    by (cases sep) auto
  have "split_from sep cur (c # cs @ rest) = cur # split_from sep [] (drop (length sep) (c # cs @ rest))"
    unfolding split_from.simps using sep by simp
  then show ?case
    using sep by simp
next
  case (Cons a pre)
  have np: "\<not> prefix sep ((a # pre) @ sep @ rest)"
  proof
    assume "prefix sep ((a # pre) @ sep @ rest)"
    then have "prefix sep ((a # pre) @ butlast sep)"
      using Cons.prems(1) prefix_in_front by blast
    then show False
      using Cons.prems(2) by (meson prefix_imp_sublist)
  qed
  have "\<not> sublist sep (pre @ butlast sep)"
    using Cons.prems(2) by (simp add: sublist_Cons_right)
  then have "split_from sep (cur @ [a]) (pre @ sep @ rest) = (cur @ [a] @ pre) # split_from sep [] rest"
    using Cons.IH [of "cur @ [a]"] Cons.prems(1) by simp
  moreover have "split_from sep cur ((a # pre) @ sep @ rest) = split_from sep (cur @ [a]) (pre @ sep @ rest)"
    using np by simp
  ultimately show ?case by simp
qed



subsection \<open>Reading the thread id\<close>

lemma decimal_value_ascii: "is_digit c \<Longrightarrow> decimal_value c = Some (c - 48)"
  by (simp add: decimal_value_def zero_digits_def is_digit_def)

lemma is_digit_facts:
  "is_digit c \<Longrightarrow> is_int_char c \<and> \<not> is_space c \<and> c \<noteq> 95 \<and> c \<noteq> 43 \<and> c \<noteq> 45 \<and> c \<noteq> 38 \<and> c \<noteq> 116"
  by (auto simp: is_int_char_def decimal_value_ascii) (auto simp: is_digit_def is_space_def)





lemma zero_digits_head: "zero_digits = 48 # tl zero_digits"
  by (simp add: zero_digits_def)

lemma zero_digits_tail: "\<forall>z \<in> set (tl zero_digits). 1632 \<le> z"
  by (simp add: zero_digits_def)

lemma zero_digits_cases: "z \<in> set zero_digits \<Longrightarrow> z = 48 \<or> 1632 \<le> z"
proof -
  assume "z \<in> set zero_digits"
  then have "z \<in> set (48 # tl zero_digits)"
    using zero_digits_head by simp
  then show ?thesis
    using zero_digits_tail by auto
qed

lemma decimal_value_None:
  assumes "c < 48 \<or> (58 \<le> c \<and> c < 1632)"
  shows "decimal_value c = None"
proof -
  have "\<not> (z \<le> c \<and> c < z + 10)" if "z \<in> set zero_digits" for z
    using zero_digits_cases [OF that] assms by arith
  then show ?thesis
    by (simp add: decimal_value_def find_None_iff)
qed






lemma find_SomeD: "find P xs = Some x \<Longrightarrow> P x"
  by (auto simp: find_Some_iff)

lemma find_a_title_attrs:
  "find_a_title li = Some (Tag nm attrs children) \<Longrightarrow> map_of attrs (str ''title'') \<noteq> None"
  unfolding find_a_title_def by (drule find_SomeD) (simp add: is_titled_anchor_def)




text \<open>
  A text that goes on after its digits with something else is one \<open>int\<close> rejects: the
  fragment of a link such as \<open>viewthread&tid=12#last\<close>.
\<close>

lemma py_int_trailing:
  assumes "list_all is_digit ds" and "ds \<noteq> []" and "\<not> is_int_char c" and "\<not> is_space c"
  shows "py_int (ds @ c # r) = Inl ValueError"
proof -
  have hd: "is_digit (hd ds)"
    using assms(1,2) by (auto simp: list_all_iff)
  have sp: "dropWhile is_space (ds @ c # r) = ds @ c # r"
    using assms(2) hd by (cases ds) (auto dest: is_digit_facts)
  have sign: "(case ds @ c # r of [] \<Rightarrow> (False, ds @ c # r)
               | x # xs \<Rightarrow> if x = 43 then (False, xs) else if x = 45 then (True, xs) else (False, ds @ c # r))
              = (False, ds @ c # r)"
    using assms(2) hd by (cases ds) (auto dest: is_digit_facts)
  have "\<forall>x \<in> set ds. is_int_char x"
    using assms(1) by (auto simp: list_all_iff dest: is_digit_facts)
  then have dw: "dropWhile is_int_char (ds @ c # r) = c # r"
    using assms(3) by (simp add: dropWhile_append2)
  show ?thesis
    unfolding py_int_def Let_def sp sign
    using assms(4) by (simp add: dw)
qed

lemma py_int_12_last: "py_int (str ''12#last'') = Inl ValueError"
proof -
  have "\<not> is_int_char 35" "\<not> is_space 35"
    by (simp_all add: is_int_char_def decimal_value_None is_space_def)
  moreover have "list_all is_digit (str ''12'')" "str ''12'' \<noteq> []" "str ''12#last'' = str ''12'' @ 35 # str ''last''"
    by (simp_all add: is_digit_def str_def)
  ultimately show ?thesis
    using py_int_trailing [of "str ''12''" 35 "str ''last''"] by simp
qed

lemma tid_12_last: "tid_of_href (str ''viewthread&tid=12#last'') = Inl ValueError"
proof -
  have a: "str ''viewthread&tid=12#last'' = str ''viewthread&'' @ str ''tid='' @ str ''12#last''"
    by (simp add: str_def)
  have "\<not> sublist (str ''tid='') (str ''viewthread&'' @ butlast (str ''tid=''))"
    by (simp add: str_def sublist_Cons_right)
  then have s1: "split_from (str ''tid='') [] (str ''viewthread&tid=12#last'') =
      str ''viewthread&'' # split_from (str ''tid='') [] (str ''12#last'')"
    unfolding a using split_from_first [of "str ''tid=''" "str ''viewthread&''" "[]" "str ''12#last''"]
    by (simp add: str_def)
  have s2: "split_from (str ''tid='') [] (str ''12#last'') = [str ''12#last'']"
    by (simp add: str_def)
  have s3: "split_from (str ''&'') [] (str ''12#last'') = [str ''12#last'']"
    by (simp add: str_def)
  have "str_in (str ''tid='') (str ''viewthread&tid=12#last'')"
    unfolding a by (rule str_in_appendI [of _ "str ''viewthread&''" _ "str ''12#last''"]) simp
  moreover have "str ''tid='' \<noteq> []" "str ''&'' \<noteq> []"
    by (simp_all add: str_def)
  ultimately show ?thesis
    by (simp add: tid_of_href_def py_split_def bind_exn_def index_def s1 s2 s3 py_int_12_last)
qed

subsection \<open>The entries of a block\<close>
















subsection \<open>Missing containers\<close>

text \<open>
  A block whose container is missing is empty, and a page with neither container gives
  two empty lists.
\<close>

lemma py_int_no_digits:
  assumes "\<not> is_space c" and "c \<noteq> 43" and "c \<noteq> 45" and "\<not> is_int_char c"
  shows "py_int (c # r) = Inl ValueError"
  using assms by (simp add: py_int_def Let_def)

lemma tid_abc: "tid_of_href (str ''thread?tid=abc'') = Inl ValueError"
proof -
  have a: "str ''thread?tid=abc'' = str ''thread?'' @ str ''tid='' @ str ''abc''"
    by (simp add: str_def)
  have "\<not> sublist (str ''tid='') (str ''thread?'' @ butlast (str ''tid=''))"
    by (simp add: str_def sublist_Cons_right)
  then have s1: "split_from (str ''tid='') [] (str ''thread?tid=abc'') =
      str ''thread?'' # split_from (str ''tid='') [] (str ''abc'')"
    unfolding a using split_from_first [of "str ''tid=''" "str ''thread?''" "[]" "str ''abc''"]
    by (simp add: str_def)
  have s2: "split_from (str ''tid='') [] (str ''abc'') = [str ''abc'']"
    by (simp add: str_def)
  have s3: "split_from (str ''&'') [] (str ''abc'') = [str ''abc'']"
    by (simp add: str_def)
  have "\<not> is_space 97" "\<not> is_int_char 97"
    by (simp_all add: is_int_char_def decimal_value_None is_space_def)
  then have p: "py_int (str ''abc'') = Inl ValueError"
    using py_int_no_digits [of 97 "str ''bc''"] by (simp add: str_def)
  have "str_in (str ''tid='') (str ''thread?tid=abc'')"
    unfolding a by (rule str_in_appendI [of _ "str ''thread?''" _ "str ''abc''"]) simp
  moreover have "str ''tid='' \<noteq> []" "str ''&'' \<noteq> []"
    by (simp_all add: str_def)
  ultimately show ?thesis
    by (simp add: tid_of_href_def py_split_def bind_exn_def index_def s1 s2 s3 p)
qed

lemma link_page_blocks:
  "find_id (link_page h) reply_block = None"
  "extract_block (link_page h) post_block = bind_exn (tid_of_href h) (\<lambda>i. Inr [\<lparr>tid = i, title = str ''T''\<rparr>])"
proof -
  show "find_id (link_page h) reply_block = None"
    by (simp add: find_id_def soup_descendants_def link_page_def has_id_def is_li_def
        reply_block_def post_block_def str_def)
  have e: "find_id (link_page h) post_block = Some (hd (link_page h))"
    by (simp add: find_id_def soup_descendants_def link_page_def has_id_def)
  have f: "find_all_li (hd (link_page h)) =
      [Tag (str ''li'') [] [Tag (str ''a'') [(str ''title'', str ''T''), (str ''href'', h)] []]]"
    by (simp add: find_all_li_def link_page_def is_li_def str_def)
  have g: "li_entries (Tag (str ''li'') [] [Tag (str ''a'') [(str ''title'', str ''T''), (str ''href'', h)] []])
      = bind_exn (tid_of_href h) (\<lambda>i. Inr [\<lparr>tid = i, title = str ''T''\<rparr>])"
    by (simp add: li_entries_def find_a_title_def is_titled_anchor_def str_def)
  show "extract_block (link_page h) post_block = bind_exn (tid_of_href h) (\<lambda>i. Inr [\<lparr>tid = i, title = str ''T''\<rparr>])"
    by (simp add: extract_block_def e f g bind_exn_def split: sum.splits)
qed

lemma extract_block_missing: "find_id nodes target = None \<Longrightarrow> extract_block nodes target = Inr []"
  by (simp add: extract_block_def)

lemma extract_top_posts_both_missing:
  "find_id nodes reply_block = None \<Longrightarrow> find_id nodes post_block = None \<Longrightarrow>
   extract_top_posts nodes = Inr \<lparr>new_reply = [], new_post = []\<rparr>"
  by (simp add: extract_top_posts_def extract_block_def bind_exn_def)

text \<open>
  Claim C9 at a page where the container of new replies is missing and the only link
  of the other container has a \<open>tid=\<close> that is not a number: \<open>get_top_posts\<close> prints
  the failure and returns \<open>None\<close>, not a result with an empty list of new replies.
\<close>

theorem get_top_posts_missing_block_fails:
  "find_id (link_page (str ''thread?tid=abc'')) reply_block = None
   \<and> get_top_posts (fetched (link_page (str ''thread?tid=abc''))) fresh_world =
       (None, print_line (PrintedExn top_posts_failed ValueError)
                (send (Get root_url) (fetched (link_page (str ''thread?tid=abc''))) fresh_world))"
proof -
  have "extract_top_posts (link_page (str ''thread?tid=abc'')) = Inl ValueError"
    by (simp add: extract_top_posts_def extract_block_missing link_page_blocks tid_abc bind_exn_def)
  moreover have "bind_exn (received (fetched nodes)) raise_for_status =
      Inr \<lparr>status_code = 200, rtext = [], rjson = None, soup = nodes\<rparr>" for nodes
    by (simp add: fetch_cases fetched_def)
  ultimately show ?thesis
    by (simp add: get_top_posts_def Let_def link_page_blocks bind_exn_def)
qed

section \<open>Saving and loading the cookies\<close>

subsection \<open>Strings through \<open>json.dump\<close> and \<open>json.load\<close>\<close>

lemma hexval_hexdigit: "d < 16 \<Longrightarrow> hexval (hexdigit d) = Some d"
  by (simp add: hexval_def hexdigit_def)

lemma hex4_value:
  fixes n :: nat
  assumes "n < 65536"
  shows "((n div 4096 mod 16 * 16 + n div 256 mod 16) * 16 + n div 16 mod 16) * 16 + n mod 16 = n"
proof -
  have "n div 4096 < 16"
    using assms by (simp add: less_mult_imp_div_less)
  then have a: "n div 4096 mod 16 = n div 4096"
    by simp
  have "n div 256 div 16 = n div 4096" "n div 16 div 16 = n div 256"
    by (simp_all add: div_mult2_eq [symmetric])
  then have b: "n div 4096 * 16 + n div 256 mod 16 = n div 256"
    and c: "n div 256 * 16 + n div 16 mod 16 = n div 16"
    using div_mult_mod_eq [of "n div 256" 16] div_mult_mod_eq [of "n div 16" 16] by simp_all
  have d: "n div 16 * 16 + n mod 16 = n"
    by (rule div_mult_mod_eq)
  show ?thesis
    unfolding a b c d ..
qed

lemma decode_hex4:
  assumes "n < 65536"
  shows "decode_uXXXX (hex4 n @ rest) = Some n"
proof -
  have "map hexval (take 4 (hex4 n @ rest)) =
      [Some (n div 4096 mod 16), Some (n div 256 mod 16), Some (n div 16 mod 16), Some (n mod 16)]"
    by (simp add: hex4_def hexval_hexdigit)
  then show ?thesis
    unfolding decode_uXXXX_def by (simp only: list.case option.case hex4_value [OF assms])
qed


lemma hex4_length: "length (hex4 n) = 4"
  by (simp add: hex4_def)

lemma scanstring_plain:
  "32 \<le> c \<Longrightarrow> c \<noteq> 34 \<Longrightarrow> c \<noteq> 92 \<Longrightarrow>
   scanstring (c # rest) = map_option (apfst ((#) c)) (scanstring rest)"
  by simp

lemma scanstring_short:
  "backslash_char e = Some ch \<Longrightarrow> e \<noteq> 117 \<Longrightarrow>
   scanstring (92 # e # rest) = map_option (apfst ((#) ch)) (scanstring rest)"
  by simp

lemma scanstring_u_unfold:
  "scanstring (92 # 117 # es) =
     (case decode_uXXXX es of
        None \<Rightarrow> None
      | Some uni \<Rightarrow>
          if 0xD800 \<le> uni \<and> uni \<le> 0xDBFF \<and> take 2 (drop 4 es) = [92, 117] then
            (case decode_uXXXX (drop 6 es) of
               None \<Rightarrow> None
             | Some uni2 \<Rightarrow>
                 if 0xDC00 \<le> uni2 \<and> uni2 \<le> 0xDFFF then
                   map_option (apfst ((#) (0x10000 + (uni - 0xD800) * 1024 + (uni2 - 0xDC00))))
                     (scanstring (drop 10 es))
                 else map_option (apfst ((#) uni)) (scanstring (drop 4 es)))
          else map_option (apfst ((#) uni)) (scanstring (drop 4 es)))"
  by simp

lemma scanstring_u:
  assumes "n < 65536" and "\<not> (0xD800 \<le> n \<and> n \<le> 0xDBFF)"
  shows "scanstring ([92, 117] @ hex4 n @ rest) = map_option (apfst ((#) n)) (scanstring rest)"
proof -
  have c: "\<not> (0xD800 \<le> n \<and> n \<le> 0xDBFF \<and> take 2 rest = [92, 117])"
    using assms(2) by blast
  have d: "drop 4 (hex4 n @ rest) = rest"
    by (simp add: hex4_length)
  have "scanstring (92 # 117 # (hex4 n @ rest)) = map_option (apfst ((#) n)) (scanstring rest)"
    unfolding scanstring_u_unfold decode_hex4 [OF assms(1)] option.case if_not_P [OF c] d ..
  then show ?thesis
    by simp
qed

lemma scanstring_pair:
  assumes "0xD800 \<le> hi" "hi \<le> 0xDBFF" "0xDC00 \<le> lo" "lo \<le> 0xDFFF"
  shows "scanstring ([92, 117] @ hex4 hi @ [92, 117] @ hex4 lo @ rest) =
           map_option (apfst ((#) (0x10000 + (hi - 0xD800) * 1024 + (lo - 0xDC00)))) (scanstring rest)"
proof -
  let ?es = "hex4 hi @ [92, 117] @ hex4 lo @ rest"
  have hi: "decode_uXXXX ?es = Some hi"
    using assms(2) by (intro decode_hex4) simp
  have t: "take 2 (drop 4 ?es) = [92, 117]"
    by (simp add: hex4_length)
  have lo: "decode_uXXXX (drop 6 ?es) = Some lo"
    using assms(4) decode_hex4 [of lo rest] by (simp add: hex4_length)
  have d: "drop 10 ?es = rest"
    by (simp add: hex4_length)
  have c1: "0xD800 \<le> hi \<and> hi \<le> 0xDBFF \<and> take 2 (drop 4 ?es) = [92, 117]"
    using assms(1,2) t by blast
  have c2: "0xDC00 \<le> lo \<and> lo \<le> 0xDFFF"
    using assms(3,4) by blast
  have "scanstring (92 # 117 # ?es) =
      map_option (apfst ((#) (0x10000 + (hi - 0xD800) * 1024 + (lo - 0xDC00)))) (scanstring rest)"
    unfolding scanstring_u_unfold hi option.case if_P [OF c1] lo if_P [OF c2] d ..
  then show ?thesis
    by simp
qed

lemma scanstring_escape_char:
  assumes "scalar c"
  shows "scanstring (escape_char c @ rest) = map_option (apfst ((#) c)) (scanstring rest)"
proof -
  consider (short) "c \<in> {34, 92, 10, 13, 9, 8, 12}"
    | (plain) "c \<notin> {34, 92, 10, 13, 9, 8, 12}" "32 \<le> c" "c \<le> 126"
    | (u) "c \<notin> {34, 92, 10, 13, 9, 8, 12}" "\<not> (32 \<le> c \<and> c \<le> 126)" "c < 0x10000"
    | (pair) "0x10000 \<le> c"
    by fastforce
  then show ?thesis
  proof cases
    case short
    then show ?thesis
      by (auto simp: escape_char_def backslash_char_def)
  next
    case plain
    then show ?thesis
      by (simp add: escape_char_def)
  next
    case u
    have "\<not> (0xD800 \<le> c \<and> c \<le> 0xDBFF)"
      using assms u(3) by (auto simp: scalar_def)
    then show ?thesis
      using u scanstring_u [of c rest] by (simp add: escape_char_def)
  next
    case pair
    let ?m = "c - 0x10000"
    have m: "?m < 0x100000"
      using assms pair by (auto simp: scalar_def)
    have dm: "?m div 1024 mod 1024 = ?m div 1024"
      using m by (simp add: less_mult_imp_div_less)
    have hi: "0xD800 \<le> 0xD800 + ?m div 1024" "0xD800 + ?m div 1024 \<le> 0xDBFF"
      using m by (simp_all add: less_mult_imp_div_less Suc_leI)
    have lo: "0xDC00 \<le> 0xDC00 + ?m mod 1024" "0xDC00 + ?m mod 1024 \<le> 0xDFFF"
      by simp_all
    have val: "0x10000 + (0xD800 + ?m div 1024 - 0xD800) * 1024 + (0xDC00 + ?m mod 1024 - 0xDC00) = c"
      using pair by simp
    have "escape_char c = [92, 117] @ hex4 (0xD800 + ?m div 1024) @ [92, 117] @ hex4 (0xDC00 + ?m mod 1024)"
      using pair by (simp add: escape_char_def dm)
    then show ?thesis
      using scanstring_pair [OF hi lo, of rest] by (simp only: val append_assoc)
  qed
qed

lemma scanstring_encoded:
  "list_all scalar s \<Longrightarrow> scanstring (concat (map escape_char s) @ 34 # rest) = Some (s, rest)"
  by (induction s) (simp_all add: scanstring_escape_char)

subsection \<open>Objects through \<open>json.dump\<close> and \<open>json.load\<close>\<close>

lemma skip_ws_simps:
  "skip_ws [] = []"
  "\<not> is_ws c \<Longrightarrow> skip_ws (c # s) = c # s"
  "skip_ws (32 # s) = skip_ws s"
  by (simp_all add: skip_ws_def is_ws_def)

lemma not_ws: "\<not> is_ws 34" "\<not> is_ws 110" "\<not> is_ws 58" "\<not> is_ws 125" "\<not> is_ws 44" "\<not> is_ws 123"
  by (simp_all add: is_ws_def)

lemma json_dumps_PDict: "json_dumps (PDict kvs) = 123 # join_comma (map encode_item kvs) @ [125]"
proof -
  have "(\<lambda>(k, v). encode_basestring_ascii k @ str '': '' @ json_dumps v) = encode_item"
    by (auto simp: encode_item_def)
  then show ?thesis
    by (simp add: str_def)
qed

lemma scan_once_string:
  "list_all scalar s \<Longrightarrow> scan_once (Suc n) (encode_basestring_ascii s @ rest) = Some (PStr s, rest)"
  by (simp add: encode_basestring_ascii_def scanstring_encoded)

lemma scan_once_null: "scan_once (Suc n) (str ''null'' @ rest) = Some (PNone, rest)"
  by (simp add: str_def)

lemma scan_once_plain:
  "plain_value v \<Longrightarrow> scan_once (Suc n) (json_dumps v @ rest) = Some (v, rest)"
  by (cases v) (simp_all add: plain_value_def scan_once_string scan_once_null del: scan_once.simps)

lemma plain_starts: "plain_value v \<Longrightarrow> \<exists>c r. json_dumps v = c # r \<and> \<not> is_ws c"
  by (cases v) (auto simp: plain_value_def encode_basestring_ascii_def str_def is_ws_def)

lemma object_items_step:
  assumes "list_all scalar k" and "plain_value v" and "\<not> is_ws d"
  shows "object_items (Suc (Suc m)) (encode_item (k, v) @ d # ds) =
           (if d = 125 then Some ([(k, v)], ds)
            else if d = 44 then map_option (apfst ((#) (k, v))) (object_items (Suc m) (skip_ws ds))
            else None)"
proof -
  obtain c r where c: "json_dumps v = c # r" "\<not> is_ws c"
    using plain_starts [OF assms(2)] by blast
  let ?tail = "58 # 32 # json_dumps v @ d # ds"
  have e: "encode_item (k, v) @ d # ds = 34 # concat (map escape_char k) @ 34 # ?tail"
    by (simp add: encode_item_def encode_basestring_ascii_def str_def)
  have s1: "scanstring (concat (map escape_char k) @ 34 # ?tail) = Some (k, ?tail)"
    using assms(1) by (rule scanstring_encoded)
  have s2: "skip_ws ?tail = ?tail"
    by (simp add: skip_ws_simps not_ws)
  have s3: "skip_ws (32 # json_dumps v @ d # ds) = json_dumps v @ d # ds"
    using c by (simp add: skip_ws_simps)
  have s4: "scan_once (Suc m) (json_dumps v @ d # ds) = Some (v, d # ds)"
    using assms(2) by (rule scan_once_plain)
  have s5: "skip_ws (d # ds) = d # ds"
    using assms(3) by (simp add: skip_ws_simps)
  show ?thesis
    unfolding e by (simp add: s1 s2 s3 s4 s5 del: append.simps scan_once.simps)
qed


lemma encode_item_starts: "\<exists>r. encode_item kv = 34 # r"
  by (simp add: encode_item_def encode_basestring_ascii_def)

lemma join_comma_head: "\<exists>t. join_comma ((c # r) # xs) = c # t"
  by (cases xs) auto

lemma scan_once_empty_dict: "scan_once (Suc n) (123 # 125 # rest) = Some (PDict [], rest)"
  by (simp add: skip_ws_simps not_ws str_def)

lemma object_items_encoded:
  assumes "kvs \<noteq> []" and "\<forall>kv \<in> set kvs. list_all scalar (fst kv) \<and> plain_value (snd kv)"
    and "length kvs < n"
  shows "object_items n (join_comma (map encode_item kvs) @ 125 # rest) = Some (kvs, rest)"
  using assms
proof (induction kvs arbitrary: n)
  case Nil
  then show ?case by simp
next
  case (Cons kv kvs)
  obtain k v where kv: "kv = (k, v)"
    by (cases kv)
  from Cons.prems obtain m where n: "n = Suc (Suc m)" and m: "length kvs < Suc m"
    by (cases n; cases "n - 1") auto
  have ok: "list_all scalar k" "plain_value v"
    using Cons.prems(2) kv by auto
  show ?case
  proof (cases kvs)
    case Nil
    then show ?thesis
      using object_items_step [OF ok, of 125 m rest] kv n by (simp add: not_ws)
  next
    case (Cons kv' more)
    obtain r where r: "encode_item kv' = 34 # r"
      using encode_item_starts by blast
    let ?next = "join_comma (map encode_item kvs) @ 125 # rest"
    obtain t where "join_comma (map encode_item kvs) = 34 # t"
      using Cons r join_comma_head [of 34 r "map encode_item more"] by auto
    then have nx: "skip_ws (32 # ?next) = ?next"
      by (simp add: skip_ws_simps not_ws)
    have "join_comma (map encode_item (kv # kvs)) @ 125 # rest = encode_item (k, v) @ 44 # 32 # ?next"
      using Cons kv by (simp add: str_def)
    moreover have "object_items (Suc m) ?next = Some (kvs, rest)"
      using Cons.IH [of "Suc m"] Cons.prems(2) m Cons by simp
    ultimately show ?thesis
      using object_items_step [OF ok, of 44 m "32 # ?next"] kv n nx by (simp add: not_ws)
  qed
qed

lemma length_join_comma: "\<forall>x \<in> set xs. x \<noteq> [] \<Longrightarrow> length xs \<le> length (join_comma xs)"
proof (induction xs rule: join_comma.induct)
  case 1
  then show ?case by simp
next
  case (2 x)
  then show ?case by (cases x) auto
next
  case (3 x y ys)
  then show ?case by (cases x) auto
qed

lemma update_new: "k \<notin> fst ` set al \<Longrightarrow> AList.update k v al = al @ [(k, v)]"
  by (induction al) auto

lemma foldl_update_distinct:
  "distinct (map fst (acc @ kvs)) \<Longrightarrow> foldl (\<lambda>d (k, v). AList.update k v d) acc kvs = acc @ kvs"
proof (induction kvs arbitrary: acc)
  case Nil
  then show ?case by simp
next
  case (Cons kv kvs)
  obtain k v where kv: "kv = (k, v)"
    by (cases kv)
  have "k \<notin> fst ` set acc"
    using Cons.prems kv by auto
  then have "AList.update k v acc = acc @ [(k, v)]"
    by (rule update_new)
  then show ?case
    using Cons.IH [of "acc @ [(k, v)]"] Cons.prems kv by simp
qed

lemma dict_of_pairs_distinct: "distinct (map fst kvs) \<Longrightarrow> dict_of_pairs kvs = kvs"
  using foldl_update_distinct [of "[]" kvs] by (simp add: dict_of_pairs_def)

lemma json_loads_object:
  assumes "scan_once (2 * length s + 2) s = Some (v, [])" and "s = 123 # r"
  shows "json_loads s = Some v"
proof -
  have "take 1 s \<noteq> [0xFEFF]" "skip_ws s = s"
    using assms(2) by (simp_all add: skip_ws_simps not_ws)
  then show ?thesis
    unfolding json_loads_def using assms(1) by (simp add: skip_ws_simps del: scan_once.simps)
qed

lemma json_loads_dumps:
  assumes "distinct (map fst kvs)" and "\<forall>kv \<in> set kvs. list_all scalar (fst kv) \<and> plain_value (snd kv)"
  shows "json_loads (json_dumps (PDict kvs)) = Some (PDict kvs)"
proof -
  let ?body = "join_comma (map encode_item kvs)"
  let ?s = "123 # ?body @ [125]"
  have "length (map encode_item kvs) \<le> length ?body"
    using encode_item_starts by (intro length_join_comma) (auto, metis list.distinct(1))
  then have len: "length kvs < 2 * length ?s + 1"
    by simp
  have scan: "scan_once (Suc n) ?s = Some (PDict kvs, [])" if n: "length kvs < n" for n
  proof (cases kvs)
    case Nil
    show ?thesis
      unfolding Nil by (simp only: list.map join_comma.simps append_Nil scan_once_empty_dict)
  next
    case (Cons kv more)
    obtain r where r: "encode_item kv = 34 # r"
      using encode_item_starts by blast
    then obtain r' where b: "?body @ [125] = 34 # r'"
      using Cons join_comma_head [of 34 r "map encode_item more"] by auto
    have "object_items n (?body @ [125]) = Some (kvs, [])"
      using object_items_encoded [OF _ assms(2) n, of "[]"] Cons by simp
    then have "object_items n (34 # r') = Some (kvs, [])"
      using b by simp
    then have "scan_once (Suc n) (123 # 34 # r') = Some (PDict kvs, [])"
      using assms(1) by (simp add: skip_ws_simps not_ws str_def dict_of_pairs_distinct del: object_items.simps)
    then show ?thesis
      using b by simp
  qed
  have "2 * length ?s + 2 = Suc (2 * length ?s + 1)"
    by simp
  then have "scan_once (2 * length ?s + 2) ?s = Some (PDict kvs, [])"
    using scan [OF len] by (simp only:)
  then have "json_loads ?s = Some (PDict kvs)"
    by (rule json_loads_object) simp
  then show ?thesis
    by (simp only: json_dumps_PDict)
qed

subsection \<open>The jar through \<open>dict_from_cookiejar\<close> and \<open>cookiejar_from_dict\<close>\<close>

lemma dict_of_pairs_snoc: "dict_of_pairs (ps @ [(k, v)]) = AList.update k v (dict_of_pairs ps)"
  by (simp add: dict_of_pairs_def)

lemma dict_of_pairs_props: "distinct (map fst (dict_of_pairs ps)) \<and> set (dict_of_pairs ps) \<subseteq> set ps"
proof (induction ps rule: rev_induct)
  case Nil
  then show ?case by (simp add: dict_of_pairs_def)
next
  case (snoc p ps)
  obtain k v where p: "p = (k, v)"
    by (cases p)
  have "set (AList.update k v al) \<subseteq> insert (k, v) (set al)" for al :: "(ustr \<times> pyval) list"
    by (induction al) auto
  then have "set (AList.update k v (dict_of_pairs ps)) \<subseteq> insert (k, v) (set (dict_of_pairs ps))" .
  with snoc p show ?case
    by (auto simp: dict_of_pairs_snoc distinct_update)
qed

text \<open>The jar that \<open>cookiejar_from_dict\<close> builds has one domain and one path.\<close>

lemma set_cookie_first: "set_cookie [] pth k x [] = [([], [(pth, [(k, unquote_value x)])])]"
  by (simp add: set_cookie_def get_or_empty_def)

lemma set_cookie_next:
  "set_cookie [] pth k x [([], [(pth, al)])] = [([], [(pth, AList.update k (unquote_value x) al)])]"
  by (simp add: set_cookie_def get_or_empty_def)

lemma foldl_set_cookie:
  "foldl (\<lambda>j (k, x). set_cookie [] pth k x j) [([], [(pth, al)])] kvs =
     [([], [(pth, foldl (\<lambda>d (k, x). AList.update k (unquote_value x) d) al kvs)])]"
  by (induction kvs arbitrary: al) (auto simp: set_cookie_next)

lemma jar_items_from_dict:
  "cookiejar_from_dict (PDict kvs) = Inr j \<Longrightarrow>
   jar_items j = foldl (\<lambda>d (k, x). AList.update k (unquote_value x) d) [] kvs"
proof (cases kvs)
  case Nil
  assume "cookiejar_from_dict (PDict kvs) = Inr j"
  with Nil show ?thesis
    by (simp add: cookiejar_from_dict_def jar_items_def)
next
  case (Cons kv more)
  obtain k x where kv: "kv = (k, x)"
    by (cases kv)
  assume "cookiejar_from_dict (PDict kvs) = Inr j"
  then have "j = [([], [(str ''/'', foldl (\<lambda>d (k, x). AList.update k (unquote_value x) d) [(k, unquote_value x)] more)])]"
    using Cons kv by (simp add: cookiejar_from_dict_def set_cookie_first foldl_set_cookie)
  then show ?thesis
    using Cons kv by (simp add: jar_items_def)
qed

lemma foldl_update_stable:
  "\<forall>kv \<in> set kvs. unquote_value (snd kv) = snd kv \<Longrightarrow>
   foldl (\<lambda>d (k, x). AList.update k (unquote_value x) d) acc kvs = foldl (\<lambda>d (k, x). AList.update k x d) acc kvs"
  by (induction kvs arbitrary: acc) auto

lemma load_saved:
  assumes "\<forall>kv \<in> set (jar_items (cookies w)). list_all scalar (fst kv) \<and> stable_value (snd kv)"
  shows "fst (load_cookies (save_cookies Written w)) = Inr ()
       \<and> jar_items (cookies (snd (load_cookies (save_cookies Written w)))) = dict_from_cookiejar (cookies w)"
proof -
  let ?d = "dict_from_cookiejar (cookies w)"
  have d: "distinct (map fst ?d)" "set ?d \<subseteq> set (jar_items (cookies w))"
    using dict_of_pairs_props [of "jar_items (cookies w)"] by (simp_all add: dict_from_cookiejar_def)
  then have ok: "\<forall>kv \<in> set ?d. list_all scalar (fst kv) \<and> plain_value (snd kv)"
    and st: "\<forall>kv \<in> set ?d. unquote_value (snd kv) = snd kv"
    using assms by (auto simp: stable_value_def)
  have saved: "cookie_file (save_cookies Written w) = Some (json_dumps (PDict ?d))"
    by (simp add: save_cookies_def)
  have loads: "json_loads (json_dumps (PDict ?d)) = Some (PDict ?d)"
    using d(1) ok by (rule json_loads_dumps)
  obtain j where j: "cookiejar_from_dict (PDict ?d) = Inr j"
    by (simp add: cookiejar_from_dict_def)
  have "jar_items j = dict_of_pairs ?d"
    using jar_items_from_dict [OF j] foldl_update_stable [OF st, of "[]"] by (simp add: dict_of_pairs_def)
  then have items: "jar_items j = ?d"
    using d(1) by (simp add: dict_of_pairs_distinct)
  have "load_cookies (save_cookies Written w) = (Inr (), (save_cookies Written w)\<lparr>cookies := j\<rparr>)"
    using saved loads j by (simp add: load_cookies_def read_cookies_def)
  with items show ?thesis
    by simp
qed

lemma stable_examples:
  "list_all scalar (str ''sid'')" "list_all scalar (str ''flag'')" "stable_value PNone"
  "stable_value (PStr (str ''abc''))" "stable_value (PStr (str ''1''))" "stable_value (PStr (str ''2''))"
  by (simp_all add: stable_value_def plain_value_def unquote_value_def scalar_def str_def)

text \<open>
  Claim C5, as stated, fails: a jar keeps cookies by domain, path and name, and the
  record keeps one value for each name. With the name \<open>sid\<close> under two paths, the
  pair of the first path is gone after saving and loading.
\<close>

theorem save_then_load_same_name_counterexample:
  "jar_items (cookies two_paths) = [(str ''sid'', PStr (str ''1'')), (str ''sid'', PStr (str ''2''))]
   \<and> jar_items (cookies (snd (load_cookies (save_cookies Written two_paths)))) = [(str ''sid'', PStr (str ''2''))]"
proof -
  have items: "jar_items (cookies two_paths) = [(str ''sid'', PStr (str ''1'')), (str ''sid'', PStr (str ''2''))]"
    by (simp add: two_paths_def jar_items_def)
  have "\<forall>kv \<in> set (jar_items (cookies two_paths)). list_all scalar (fst kv) \<and> stable_value (snd kv)"
    unfolding items by (simp add: stable_examples)
  then have "jar_items (cookies (snd (load_cookies (save_cookies Written two_paths)))) = dict_from_cookiejar (cookies two_paths)"
    using load_saved by blast
  moreover have "dict_from_cookiejar (cookies two_paths) = [(str ''sid'', PStr (str ''2''))]"
    unfolding dict_from_cookiejar_def items by (simp add: dict_of_pairs_def)
  ultimately show ?thesis
    using items by simp
qed

text \<open>
  Claim C5, amended. For every cookie collection whose names are strings of scalars and
  whose values are stable (each \<open>None\<close> or a string of scalars that the jar stores
  unchanged), saving it with a write that succeeds and then loading raises nothing and
  yields a collection whose name and value pairs are those of the dict that was
  saved: one pair for each name, with the value of the last cookie of that name. When
  no two cookies have the same name, these are the pairs of the saved collection, in
  the same order.
\<close>

theorem save_then_load:
  assumes "\<forall>kv \<in> set (jar_items (cookies w)). list_all scalar (fst kv) \<and> stable_value (snd kv)"
  shows "fst (load_cookies (save_cookies Written w)) = Inr ()
       \<and> jar_items (cookies (snd (load_cookies (save_cookies Written w)))) = dict_from_cookiejar (cookies w)
       \<and> (distinct (map fst (jar_items (cookies w))) \<longrightarrow>
            jar_items (cookies (snd (load_cookies (save_cookies Written w)))) = jar_items (cookies w))"
  using load_saved [OF assms] by (auto simp: dict_from_cookiejar_def dict_of_pairs_distinct)

theorem save_then_load_witness:
  "fst (load_cookies (save_cookies Written one_session)) = Inr ()
   \<and> jar_items (cookies (snd (load_cookies (save_cookies Written one_session)))) =
       [(str ''sid'', PStr (str ''abc'')), (str ''flag'', PNone)]"
proof -
  have items: "jar_items (cookies one_session) = [(str ''sid'', PStr (str ''abc'')), (str ''flag'', PNone)]"
    by (simp add: one_session_def jar_items_def)
  have "distinct (map fst (jar_items (cookies one_session)))"
    unfolding items by (simp add: str_def)
  moreover have "\<forall>kv \<in> set (jar_items (cookies one_session)). list_all scalar (fst kv) \<and> stable_value (snd kv)"
    unfolding items by (simp add: stable_examples)
  ultimately have "fst (load_cookies (save_cookies Written one_session)) = Inr ()"
    "jar_items (cookies (snd (load_cookies (save_cookies Written one_session)))) = jar_items (cookies one_session)"
    using save_then_load [of one_session] by blast+
  then show ?thesis
    by (simp only: items)
qed

end
